theory Spec2Isabelle
  imports Complex_Main "HOL-Library.Word" "HOL-Library.Log_Nat"
begin

section \<open>The DBL layout solver of gluezilla (DBLSolveFF.cpp, MCAssembler.cpp, DBL.cpp)\<close>

text \<open>
  The solver works on 64-bit unsigned integers (\<open>uint64_t\<close>), read as signed
  (\<open>int64_t\<close>) in a few comparisons. They are modelled as \<open>64 word\<close>: \<open>+\<close> and \<open>-\<close> wrap,
  \<open>div\<close> and \<open>mod\<close> are the unsigned operations, \<open>unat\<close> reads the unsigned value and
  \<open>sint\<close> the two's complement value.

  The source uses \<open>assert\<close> for every fatal condition. The model is the build with
  assertions enabled: a failed assertion, a \<open>value()\<close> on an empty optional and an
  iterator moved or read outside its list end the run with a value of type \<open>abort\<close>.
\<close>

type_synonym u64 = "64 word"

unbundle bit_operations_syntax

datatype abort =
    Assert_TargetOffset_lt_PageSize
  | Assert_enough_victims
  | Assert_tail_size
  | Assert_spot_found
  | Assert_page_unbound
  | Assert_B_lt_32
  | Assert_result_unique
  | Assert_Fill_nonneg
  | Assert_not_fill_fragment
  | Assert_end_is_align
  | Assert_bundle_index
  | Assert_is_range
  | Assert_paths_given
  | Assert_targets_found
  | Assert_backend
  | Assert_bundling_disabled
  | Bad_optional_access
  | Iterator_out_of_range
  | Division_by_zero
  | Index_out_of_range
  | Loops_forever
  | Log2_of_zero
  | Assert_config_parsed
  | Assert_range_is_4
  | Assert_victims_open
  | Assert_is_DBLFragment
  | Assert_bundle_unique
  | Assert_dest_found
  | Assert_first_in_bundle
  | Host_abort

subsection \<open>The free list\<close>

text \<open>
  \<open>FreeListT\<close> is a \<open>std::list\<close> of pairs (section offset, size). An iterator is
  modelled by the position of its node: \<open>0\<close> is \<open>begin()\<close> and \<open>length xs\<close> is \<open>end()\<close>.
  Iterators of a \<open>std::list\<close> stay on their node, so inserting a node before position \<open>i\<close>
  moves every iterator at a position \<open>\<ge> i\<close> one to the right; this shift is written out
  wherever the source inserts.
\<close>

type_synonym FreeListT = "(u64 \<times> u64) list"

definition list_insert :: "'a list \<Rightarrow> nat \<Rightarrow> 'a \<Rightarrow> 'a list" where
  \<comment> \<open>\<open>std::list::insert(pos, v)\<close>: the new node goes before \<open>pos\<close>\<close>
  "list_insert xs pos v = take pos xs @ v # drop pos xs"

definition list_erase :: "'a list \<Rightarrow> nat \<Rightarrow> 'a list" where
  \<comment> \<open>\<open>std::list::erase(pos)\<close>; the iterator returned is again position \<open>pos\<close>\<close>
  "list_erase xs pos = take pos xs @ drop (Suc pos) xs"

definition list_erase_range :: "'a list \<Rightarrow> nat \<Rightarrow> nat \<Rightarrow> 'a list" where
  \<comment> \<open>\<open>std::list::erase(b, e)\<close>, \<open>e\<close> exclusive\<close>
  "list_erase_range xs b e = take b xs @ drop e xs"

record RollBackInfo =
  Start :: nat
  End :: nat
  Value :: "u64 \<times> u64"

text \<open>
  \<open>splitFreelistAt\<close> declares its list parameter without \<open>&\<close> and takes the iterator by
  reference. The file is written against libstdc++ (it names \<open>std::_List_iterator\<close>), where
  \<open>insert(Itr, New)\<close> links the new node in front of the node \<open>Itr\<close> is on, whichever list
  object the call goes through: the node \<open>(Itr->first, Offset)\<close> enters the caller's chain
  before \<open>Itr\<close>, and the two assignments through \<open>Itr\<close> shrink the node behind it. The
  parameter's own nodes are untouched and freed on return. \<open>Itr\<close> stays on its node, which is
  then at position \<open>Itr + 1\<close>.
\<close>

definition splitFreelistAt :: "FreeListT \<Rightarrow> nat \<Rightarrow> u64 \<Rightarrow> abort + (FreeListT \<times> nat)" where
  "splitFreelistAt FreeList Itr Offset =
     (if \<not> Itr < length FreeList then Inl Iterator_out_of_range
      else let (first, second) = FreeList ! Itr;
               New = (first, Offset)
           in Inr ((list_insert FreeList Itr New)[Suc Itr := (first + Offset, second - Offset)],
                   Suc Itr))"

text \<open>
  \<open>removeFromFreelist\<close> takes the list by reference. The positions \<open>Start\<close> and \<open>End\<close> of
  the rollback record refer to the list as it is after the removal. In the last case the
  new node is inserted before \<open>Itr\<close>, so \<open>Itr\<close> is then at position \<open>Itr + 1\<close>,
  \<open>std::prev(Itr)\<close> at \<open>Itr\<close> and \<open>std::next(Itr)\<close> at \<open>Itr + 2\<close>.
\<close>

definition removeFromFreelist ::
  "FreeListT \<Rightarrow> nat \<Rightarrow> u64 \<Rightarrow> u64 \<Rightarrow> abort + (FreeListT \<times> RollBackInfo)" where
  "removeFromFreelist FreeList Itr Offset Size =
     (if \<not> Itr < length FreeList then Inl Iterator_out_of_range
      else let (first, second) = FreeList ! Itr; P = (first, second) in
        if Offset = 0 \<and> second = Size then
          Inr (list_erase FreeList Itr, \<lparr>Start = Itr, End = Itr, Value = P\<rparr>)
        else if Offset = 0 then
          Inr (FreeList[Itr := (first + Size, second - Size)],
               \<lparr>Start = Itr, End = Suc Itr, Value = P\<rparr>)
        else if Offset + Size = first + second then
          (if second - Size = Offset
           then Inr (FreeList[Itr := (first, second - Size)],
                     \<lparr>Start = Itr, End = Suc Itr, Value = P\<rparr>)
           else Inl Assert_tail_size)
        else
          Inr ((list_insert FreeList Itr (first, Offset))
                 [Suc Itr := (first + (Offset + Size), second - (Offset + Size))],
               \<lparr>Start = Itr, End = Suc (Suc Itr), Value = P\<rparr>))"

text \<open>
  The rollback of \<open>assignSpotAtDist\<close>:
  \<^verbatim>\<open>FreeList.insert(RBI.Start, RBI.Value); FreeList.erase(RBI.Start, RBI.End);\<close>
  After the insertion before \<open>Start\<close> both iterators are one position further.
\<close>

definition rollback :: "FreeListT \<Rightarrow> RollBackInfo \<Rightarrow> FreeListT" where
  "rollback FreeList RBI =
     list_erase_range (list_insert FreeList (Start RBI) (Value RBI))
       (Suc (Start RBI)) (Suc (End RBI))"

definition free_space :: "FreeListT \<Rightarrow> nat" where
  "free_space FreeList = sum_list (map (\<lambda>(first, second). unat second) FreeList)"

subsection \<open>Victim frame assignment: \<open>findVictim\<close>\<close>

text \<open>
  \<open>MCAssembler::VictimInfo\<close> (fields as \<open>readConfig\<close> fills them), the solver's
  \<open>TargetVictimInfo\<close> and \<open>Block\<close>. \<open>PageSize\<close> and \<open>VictimInfos\<close> are members of the
  assembler declared in a header that is not part of the sources; they are parameters
  of the model.
\<close>

record VictimInfo =
  VictimAddr :: u64
  Bit :: u64
  Sign :: bool
  Aggrs :: "u64 list"
  AggrInit :: u64

record TargetVictimInfo =
  TargetOffset :: u64

record Block =
  BundleIdx :: nat
  BlockSize :: u64
  SectionOffset :: u64
  TargetVictimInfo :: "TargetVictimInfo option"

definition INT64_MAX :: u64 where "INT64_MAX = 0x7FFFFFFFFFFFFFFF"
definition UINT64_MAX :: u64 where "UINT64_MAX = 0xFFFFFFFFFFFFFFFF"

text \<open>
  The state of the two loops of \<open>findVictim\<close> is \<open>(Best, Ret)\<close>; \<open>Best\<close> and \<open>E\<close> are
  \<open>int64_t\<close>, compared through \<open>sint\<close>. The loop counters \<open>I\<close> and \<open>J\<close> are \<open>unsigned\<close>
  in the source and natural numbers here (the vectors hold fewer than \<open>2^32\<close> entries);
  \<open>Ret = G\<close> converts them to \<open>uint64_t\<close>.
\<close>

definition victim_step ::
  "u64 \<Rightarrow> u64 \<Rightarrow> u64 set \<Rightarrow> u64 \<Rightarrow> bool \<Rightarrow> nat \<Rightarrow> nat \<Rightarrow> VictimInfo \<Rightarrow>
   u64 \<times> (u64 \<times> u64) \<Rightarrow> u64 \<times> (u64 \<times> u64)" where
  "victim_step PageSize TargetOffset' Used Bit' Sign' I J Victim st =
     (let (Best, Ret) = st;
          G = (word_of_nat I, word_of_nat J);
          FrameOffset = VictimAddr Victim mod PageSize;
          E = FrameOffset - TargetOffset'
      in if 0 < sint E \<and> sint E < sint Best \<and> Bit Victim = Bit' \<and> Sign Victim = Sign' \<and>
            VictimAddr Victim div PageSize \<notin> Used
         then (E, G) else (Best, Ret))"

fun findVictim_inner ::
  "u64 \<Rightarrow> u64 \<Rightarrow> u64 set \<Rightarrow> u64 \<Rightarrow> bool \<Rightarrow> nat \<Rightarrow> nat \<Rightarrow> VictimInfo list \<Rightarrow>
   u64 \<times> (u64 \<times> u64) \<Rightarrow> u64 \<times> (u64 \<times> u64)" where
  "findVictim_inner PageSize TargetOffset' Used Bit' Sign' I J [] st = st"
| "findVictim_inner PageSize TargetOffset' Used Bit' Sign' I J (Victim # rest) st =
     findVictim_inner PageSize TargetOffset' Used Bit' Sign' I (Suc J) rest
       (victim_step PageSize TargetOffset' Used Bit' Sign' I J Victim st)"

fun findVictim_outer ::
  "u64 \<Rightarrow> u64 \<Rightarrow> u64 set \<Rightarrow> u64 \<Rightarrow> bool \<Rightarrow> nat \<Rightarrow> VictimInfo list list \<Rightarrow>
   u64 \<times> (u64 \<times> u64) \<Rightarrow> u64 \<times> (u64 \<times> u64)" where
  "findVictim_outer PageSize TargetOffset' Used Bit' Sign' I [] st = st"
| "findVictim_outer PageSize TargetOffset' Used Bit' Sign' I (VictimInfo # rest) st =
     findVictim_outer PageSize TargetOffset' Used Bit' Sign' (Suc I) rest
       (findVictim_inner PageSize TargetOffset' Used Bit' Sign' I 0 VictimInfo st)"

text \<open>
  \<open>findVictim\<close> reads and extends the file-level set \<open>Used\<close>; the model takes it and
  returns it with the result.
\<close>

definition findVictim ::
  "u64 \<Rightarrow> VictimInfo list list \<Rightarrow> u64 set \<Rightarrow> Block \<Rightarrow> u64 \<Rightarrow> bool \<Rightarrow>
   abort + ((u64 \<times> u64) \<times> u64 set)" where
  "findVictim PageSize VictimInfos Used Block Bit' Sign' =
     (case TargetVictimInfo Block of
        None \<Rightarrow> Inl Bad_optional_access
      | Some TVI \<Rightarrow>
          if \<not> TargetOffset TVI < PageSize then Inl Assert_TargetOffset_lt_PageSize
          else
            let (Best, Ret) =
                  findVictim_outer PageSize (TargetOffset TVI) Used Bit' Sign' 0 VictimInfos
                    (INT64_MAX, (UINT64_MAX, UINT64_MAX))
            in if \<not> fst Ret \<noteq> UINT64_MAX then Inl Assert_enough_victims
               else Inr (Ret,
                      insert (VictimAddr (VictimInfos ! unat (fst Ret) ! unat (snd Ret))
                                div PageSize) Used))"

text \<open>
  The words of the specification of \<open>findVictim\<close>: \<open>E\<close> is the head padding
  \<open>(victim.virt_addr mod page_size) - target_offset\<close> as an integer, and a pair of indices
  is a candidate when its frame is unused, bit and sign are the required ones and \<open>E\<close> is
  strictly positive.
\<close>

definition head_padding :: "u64 \<Rightarrow> u64 \<Rightarrow> VictimInfo \<Rightarrow> int" where
  "head_padding PageSize TargetOffset' Victim =
     int (unat (VictimAddr Victim mod PageSize)) - int (unat TargetOffset')"

definition acceptable_victim :: "u64 \<Rightarrow> u64 \<Rightarrow> u64 set \<Rightarrow> u64 \<Rightarrow> bool \<Rightarrow> VictimInfo \<Rightarrow> bool" where
  "acceptable_victim PageSize TargetOffset' Used Bit' Sign' Victim \<longleftrightarrow>
     VictimAddr Victim div PageSize \<notin> Used \<and> Bit Victim = Bit' \<and> Sign Victim = Sign' \<and>
     0 < head_padding PageSize TargetOffset' Victim"

definition candidate ::
  "u64 \<Rightarrow> VictimInfo list list \<Rightarrow> u64 \<Rightarrow> u64 set \<Rightarrow> u64 \<Rightarrow> bool \<Rightarrow> nat \<Rightarrow> nat \<Rightarrow> bool" where
  "candidate PageSize VictimInfos TargetOffset' Used Bit' Sign' I J \<longleftrightarrow>
     I < length VictimInfos \<and> J < length (VictimInfos ! I) \<and>
     acceptable_victim PageSize TargetOffset' Used Bit' Sign' (VictimInfos ! I ! J)"

text \<open>The candidates in the order in which the two loops visit them.\<close>

fun scan_row :: "nat \<Rightarrow> nat \<Rightarrow> VictimInfo list \<Rightarrow> (nat \<times> nat \<times> VictimInfo) list" where
  "scan_row I J [] = []"
| "scan_row I J (Victim # rest) = (I, J, Victim) # scan_row I (Suc J) rest"

fun scan_all :: "nat \<Rightarrow> VictimInfo list list \<Rightarrow> (nat \<times> nat \<times> VictimInfo) list" where
  "scan_all I [] = []"
| "scan_all I (VictimInfo # rest) = scan_row I 0 VictimInfo @ scan_all (Suc I) rest"

definition scan_step ::
  "u64 \<Rightarrow> u64 \<Rightarrow> u64 set \<Rightarrow> u64 \<Rightarrow> bool \<Rightarrow> nat \<times> nat \<times> VictimInfo \<Rightarrow>
   u64 \<times> (u64 \<times> u64) \<Rightarrow> u64 \<times> (u64 \<times> u64)" where
  "scan_step PageSize TargetOffset' Used Bit' Sign' c st =
     (case c of (I, J, Victim) \<Rightarrow> victim_step PageSize TargetOffset' Used Bit' Sign' I J Victim st)"

definition scan_before :: "nat \<times> nat \<times> VictimInfo \<Rightarrow> nat \<times> nat \<times> VictimInfo \<Rightarrow> bool" where
  "scan_before c c' \<longleftrightarrow> fst c < fst c' \<or> (fst c = fst c' \<and> fst (snd c) < fst (snd c'))"

text \<open>
  Test data after scenarios 1 and 5 of the specification: a fixed target at offset
  \<open>0x120\<close> of its block, bit 3, sign \<open>+\<close>, page size 4096; two frames whose victims
  \<open>0x4130\<close> and \<open>0x7130\<close> give the same head padding \<open>0x10\<close>.
\<close>

definition victim :: "u64 \<Rightarrow> u64 \<Rightarrow> bool \<Rightarrow> VictimInfo" where
  "victim addr b s = \<lparr>VictimAddr = addr, Bit = b, Sign = s, Aggrs = [], AggrInit = 0\<rparr>"

definition tie_victims :: "VictimInfo list list" where
  "tie_victims = [[victim 0x4200 3 True, victim 0x4130 3 True], [victim 0x7130 3 True]]"

definition fixed_block :: Block where
  "fixed_block = \<lparr>BundleIdx = 0, BlockSize = 0x200, SectionOffset = 0,
                   TargetVictimInfo = Some \<lparr>TargetOffset = 0x120\<rparr>\<rparr>"

subsection \<open>Virtual memory assignment: \<open>assignSpot\<close>, \<open>assignSpotVictim\<close>, \<open>assignSpotAtDist\<close>\<close>

text \<open>
  The loop of \<open>assignSpot\<close>:
  \<^verbatim>\<open>while(FreeListItr != FreeList.end() && FreeListItr->second < Block.BlockSize) FreeListItr++;\<close>
\<close>

function assignSpot_loop :: "FreeListT \<Rightarrow> nat \<Rightarrow> u64 \<Rightarrow> nat" where
  "assignSpot_loop FreeList FreeListItr BlockSize' =
     (if FreeListItr < length FreeList \<and> snd (FreeList ! FreeListItr) < BlockSize'
      then assignSpot_loop FreeList (Suc FreeListItr) BlockSize' else FreeListItr)"
  by pat_completeness auto
termination
  by (relation "measure (\<lambda>(FreeList, FreeListItr, BlockSize'). length FreeList - FreeListItr)")
    auto

declare assignSpot_loop.simps [simp del]

text \<open>
  \<open>assignSpot\<close> advances the caller's iterator, sets \<open>Block.SectionOffset\<close> and removes
  the block from the head of the interval found. It returns the iterator as the loop left
  it, the list, the block and the rollback record.
\<close>

definition assignSpot ::
  "nat \<Rightarrow> FreeListT \<Rightarrow> Block \<Rightarrow> abort + (nat \<times> FreeListT \<times> Block \<times> RollBackInfo)" where
  "assignSpot FreeListItr FreeList Block =
     (let Itr = assignSpot_loop FreeList FreeListItr (BlockSize Block) in
      if \<not> Itr \<noteq> length FreeList then Inl Assert_spot_found
      else
        let Block' = Block\<lparr>SectionOffset := fst (FreeList ! Itr)\<rparr> in
        case removeFromFreelist FreeList Itr 0 (BlockSize Block') of
          Inl e \<Rightarrow> Inl e
        | Inr (FreeList', RBI) \<Rightarrow> Inr (Itr, FreeList', Block', RBI))"

text \<open>
  The loop of \<open>assignSpotVictim\<close>. \<open>TO\<close> and \<open>VictimOffsetInPage\<close> are \<open>int64_t\<close>: the
  first test is a signed comparison of a signed sum, the second an unsigned comparison
  (its operands are converted to \<open>uint64_t\<close>), the third reads the file-level map
  \<open>Page2Frame\<close>.
\<close>

definition spot_unusable ::
  "u64 \<Rightarrow> (u64 \<rightharpoonup> u64) \<Rightarrow> u64 \<Rightarrow> u64 \<Rightarrow> u64 \<Rightarrow> u64 \<Rightarrow> u64 \<times> u64 \<Rightarrow> bool" where
  "spot_unusable PageSize Page2Frame TO VictimOffsetInPage BlockSize' VictimAddr' S \<longleftrightarrow>
     sint VictimOffsetInPage < sint (TO + fst S mod PageSize) \<or>
     fst S mod PageSize + snd S < (BlockSize' - TO) + VictimOffsetInPage \<or>
     (Page2Frame (fst S div PageSize) \<noteq> None \<and>
      Page2Frame (fst S div PageSize) \<noteq> Some (VictimAddr' div PageSize))"

function assignSpotVictim_loop ::
  "u64 \<Rightarrow> (u64 \<rightharpoonup> u64) \<Rightarrow> u64 \<Rightarrow> u64 \<Rightarrow> u64 \<Rightarrow> u64 \<Rightarrow> FreeListT \<Rightarrow> nat \<Rightarrow> nat" where
  "assignSpotVictim_loop PageSize Page2Frame TO VictimOffsetInPage BlockSize' VictimAddr'
       FreeList S =
     (if S < length FreeList \<and>
         spot_unusable PageSize Page2Frame TO VictimOffsetInPage BlockSize' VictimAddr'
           (FreeList ! S)
      then assignSpotVictim_loop PageSize Page2Frame TO VictimOffsetInPage BlockSize'
             VictimAddr' FreeList (Suc S)
      else S)"
  by pat_completeness auto
termination
  by (relation "measure (\<lambda>(PageSize, Page2Frame, TO, VictimOffsetInPage, BlockSize',
                            VictimAddr', FreeList, S). length FreeList - S)")
    auto

declare assignSpotVictim_loop.simps [simp del]

text \<open>
  \<open>unsigned PageNr = S->first / PageSize\<close> keeps the low 32 bits of the page number; it is
  converted back to 64 bits as a key of \<open>Page2Frame\<close> and in the last comparison.
\<close>

definition to_unsigned :: "u64 \<Rightarrow> u64" where
  "to_unsigned x = ucast (ucast x :: 32 word)"

text \<open>
  \<open>assignSpotVictim\<close>, with the file-level map \<open>Page2Frame\<close> passed in and returned. The
  result of \<open>removeFromFreelist\<close> is dropped, as in the source. \<open>S--\<close> and
  \<open>--FreeList.end()\<close> on an empty list and a zero page size (a division by zero) end the
  run.
\<close>

definition assignSpotVictim ::
  "u64 \<Rightarrow> FreeListT \<Rightarrow> (u64 \<rightharpoonup> u64) \<Rightarrow> Block \<Rightarrow> VictimInfo \<Rightarrow>
   abort + (FreeListT \<times> (u64 \<rightharpoonup> u64) \<times> Block)" where
  "assignSpotVictim PageSize FreeList Page2Frame Block VI =
     (case TargetVictimInfo Block of
        None \<Rightarrow> Inl Bad_optional_access
      | Some TVI \<Rightarrow>
        if PageSize = 0 then Inl Division_by_zero else
        let TO = TargetOffset TVI;
            VictimOffsetInPage = VictimAddr VI mod PageSize;
            S0 = assignSpotVictim_loop PageSize Page2Frame TO VictimOffsetInPage
                   (BlockSize Block) (VictimAddr VI) FreeList 0
        in
        case (if S0 = length FreeList
              then (if FreeList = [] then Inl Iterator_out_of_range
                    else splitFreelistAt FreeList (S0 - 1)
                           (PageSize - fst (FreeList ! (S0 - 1)) mod PageSize))
              else Inr (FreeList, S0)) of
          Inl e \<Rightarrow> Inl e
        | Inr (FreeList1, S) \<Rightarrow>
          let first = fst (FreeList1 ! S);
              BlockOffset = ((VictimOffsetInPage - TO - first) mod PageSize + PageSize)
                              mod PageSize;
              Block' = Block\<lparr>SectionOffset := first + BlockOffset\<rparr>;
              PageNr = to_unsigned (first div PageSize)
          in
          if \<not> Page2Frame PageNr = None then Inl Assert_page_unbound
          else
            let Page2Frame' = Page2Frame(PageNr \<mapsto> VictimAddr VI div PageSize) in
            case removeFromFreelist FreeList1 S BlockOffset (BlockSize Block') of
              Inl e \<Rightarrow> Inl e
            | Inr (FreeList2, RBI) \<Rightarrow>
              if FreeList2 = [] then Inl Iterator_out_of_range
              else
                let I = length FreeList2 - 1 in
                if fst (FreeList2 ! I) div PageSize = PageNr
                then (case splitFreelistAt FreeList2 I
                             (PageSize - fst (FreeList2 ! I) mod PageSize) of
                        Inl e \<Rightarrow> Inl e
                      | Inr (FreeList3, I') \<Rightarrow> Inr (FreeList3, Page2Frame', Block'))
                else Inr (FreeList2, Page2Frame', Block'))"

text \<open>
  The inner loop of \<open>assignSpotAtDist\<close>:
  \<^verbatim>\<open>while(T != FreeList.end() && F > T->first) T++;\<close>
\<close>

function assignSpotAtDist_scan :: "FreeListT \<Rightarrow> nat \<Rightarrow> u64 \<Rightarrow> nat" where
  "assignSpotAtDist_scan FreeList T F =
     (if T < length FreeList \<and> fst (FreeList ! T) < F
      then assignSpotAtDist_scan FreeList (Suc T) F else T)"
  by pat_completeness auto
termination
  by (relation "measure (\<lambda>(FreeList, T, F). length FreeList - T)") auto

declare assignSpotAtDist_scan.simps [simp del]

text \<open>
  The outer loop of \<open>assignSpotAtDist\<close>. \<open>Start'\<close> is the source's iterator \<open>Start\<close>
  (a position). \<open>Next = std::prev(Start)\<close> is taken before \<open>assignSpot\<close> advances
  \<open>Start\<close>, and after a rollback \<open>Start = ++++Next\<close> is the node after the one \<open>Start\<close>
  was on, the restored node standing where the old one stood: position \<open>Start' + 1\<close>.
  (For \<open>Start == begin()\<close> the source asks itself whether \<open>prev(begin())\<close> is defined; the
  model takes the reading the source relies on.) \<open>T--\<close> at \<open>begin()\<close> ends the run. The
  loop returns the list, the normal destination and \<open>End\<close>.
\<close>

function assignSpotAtDist_loop ::
  "FreeListT \<Rightarrow> nat \<Rightarrow> Block \<Rightarrow> u64 \<Rightarrow> u64 \<Rightarrow> abort + (FreeListT \<times> Block \<times> nat)" where
  "assignSpotAtDist_loop FreeList Start' NormalDest FlipSize Dist =
     (case assignSpot Start' FreeList NormalDest of
        Inl e \<Rightarrow> Inl e
      | Inr (Itr, FreeList', NormalDest', RBI) \<Rightarrow>
          let F = SectionOffset NormalDest' + Dist;
              T = assignSpotAtDist_scan FreeList' (Start RBI) F
          in if T = 0 then Inl Iterator_out_of_range
             else if F + FlipSize \<le> fst (FreeList' ! (T - 1)) + snd (FreeList' ! (T - 1))
             then Inr (FreeList', NormalDest', T - 1)
             else assignSpotAtDist_loop (rollback FreeList' RBI) (Suc Start') NormalDest'
                    FlipSize Dist)"
  by pat_completeness auto

definition assignSpotAtDist ::
  "FreeListT \<Rightarrow> Block \<Rightarrow> Block \<Rightarrow> u64 \<Rightarrow> abort + (FreeListT \<times> Block \<times> Block)" where
  "assignSpotAtDist FreeList NormalDest FlipDest Dist =
     (case assignSpotAtDist_loop FreeList 0 NormalDest (BlockSize FlipDest) Dist of
        Inl e \<Rightarrow> Inl e
      | Inr (FreeList', NormalDest', End') \<Rightarrow>
          let FlipDest' = FlipDest\<lparr>SectionOffset := SectionOffset NormalDest' + Dist\<rparr> in
          case removeFromFreelist FreeList' End'
                 (SectionOffset FlipDest' - fst (FreeList' ! End')) (BlockSize FlipDest') of
            Inl e \<Rightarrow> Inl e
          | Inr (FreeList'', RBI) \<Rightarrow> Inr (FreeList'', NormalDest', FlipDest'))"

subsection \<open>The solve function \<open>MCAssembler::solveFF\<close>\<close>

text \<open>
  \<open>TargetSpec\<close>, \<open>Bundle\<close> and \<open>Result\<close> are declared in a header that is not part of the
  sources; their fields are taken from their uses in \<open>readConfig\<close>, \<open>layout\<close> and
  \<open>solveFF\<close>. After \<open>layout\<close> has translated them, \<open>NormalDest\<close> and \<open>FlipDest\<close> of a
  range target are indices into \<open>Bundles\<close>. \<open>BundleBegin\<close> and \<open>BundleEnd\<close> (inclusive) are
  positions in the section's fragment list.
\<close>

datatype TargetKind =
    TargetNone
  | TargetDestination
  | TargetFixed u64 bool
  | TargetRange u64 u64 u64

record TargetSpec =
  TargetOffsetInOutput :: u64
  Kind :: TargetKind
  TargetOffsetInFragment :: u64

record Bundle =
  Spec :: TargetSpec
  BundleBegin :: nat
  BundleEnd :: nat

record Result =
  ResBundleIdx :: nat
  VictimFrame :: "u64 option"
  VictimFrameIdx :: "u64 option"
  VictimPageOffset :: "u64 option"

text \<open>
  Modelled from the spec: \<open>TargetSpec::isTarget\<close> is not part of the sources. The
  specification names fixed and range targets as the targets that need a victim; an
  ignored fragment "carries no constraint" and a destination is a landing pad.
\<close>

definition isTarget :: "TargetSpec \<Rightarrow> bool" where
  "isTarget S = (case Kind S of TargetFixed b s \<Rightarrow> True | TargetRange r n f \<Rightarrow> True | _ \<Rightarrow> False)"

text \<open>
  \<open>Bundle::getBundleSize(Layout, Asm)\<close> is not part of the sources either; the solver
  takes it as the function \<open>getBundleSize\<close>.
\<close>

definition createBlock :: "(Bundle \<Rightarrow> u64) \<Rightarrow> Bundle list \<Rightarrow> nat \<Rightarrow> abort + Block" where
  "createBlock getBundleSize Bundles BundleIdx' =
     (if \<not> BundleIdx' < length Bundles then Inl Assert_bundle_index
      else let Bundle = Bundles ! BundleIdx';
               TVI = (if isTarget (Spec Bundle)
                      then Some \<lparr>TargetOffset = TargetOffsetInFragment (Spec Bundle)\<rparr>
                      else None)
           in Inr \<lparr>BundleIdx = BundleIdx', BlockSize = getBundleSize Bundle,
                   SectionOffset = 0, TargetVictimInfo = TVI\<rparr>)"

record split_state =
  AvgSize :: u64
  Targets :: "Block list"
  TargetDests :: "(Block \<times> Block) list"
  MaxNormalDestSize :: u64

text \<open>The first loop of \<open>solveFF\<close> ("split in types"), from bundle \<open>I\<close> on.\<close>

fun solveFF_split ::
  "(Bundle \<Rightarrow> u64) \<Rightarrow> Bundle list \<Rightarrow> nat \<Rightarrow> Bundle list \<Rightarrow> split_state \<Rightarrow> abort + split_state" where
  "solveFF_split getBundleSize Bundles I [] st = Inr st"
| "solveFF_split getBundleSize Bundles I (Bundle # rest) st =
     (case Kind (Spec Bundle) of
        TargetDestination \<Rightarrow>
          solveFF_split getBundleSize Bundles (Suc I) rest
            (st\<lparr>AvgSize := max (AvgSize st) (getBundleSize Bundle)\<rparr>)
      | TargetRange r NormalDest FlipDest \<Rightarrow>
          (case createBlock getBundleSize Bundles I of Inl e \<Rightarrow> Inl e | Inr Target \<Rightarrow>
           case createBlock getBundleSize Bundles (unat (to_unsigned NormalDest)) of
             Inl e \<Rightarrow> Inl e | Inr N \<Rightarrow>
           case createBlock getBundleSize Bundles (unat (to_unsigned FlipDest)) of
             Inl e \<Rightarrow> Inl e | Inr F \<Rightarrow>
             solveFF_split getBundleSize Bundles (Suc I) rest
               (st\<lparr>Targets := Targets st @ [Target],
                   AvgSize := max (AvgSize st) (getBundleSize Bundle),
                   TargetDests := TargetDests st @ [(N, F)],
                   MaxNormalDestSize :=
                     (if MaxNormalDestSize st
                           < getBundleSize (Bundles ! unat (to_unsigned NormalDest))
                      then getBundleSize (Bundles ! unat (to_unsigned NormalDest))
                      else MaxNormalDestSize st)\<rparr>))
      | _ \<Rightarrow>
          (case createBlock getBundleSize Bundles I of Inl e \<Rightarrow> Inl e | Inr Target \<Rightarrow>
             solveFF_split getBundleSize Bundles (Suc I) rest
               (st\<lparr>Targets := Targets st @ [Target],
                   AvgSize := max (AvgSize st) (getBundleSize Bundle)\<rparr>)))"

text \<open>
  The distance: \<^verbatim>\<open>double J = std::log2(AvgSize); unsigned B = std::ceil(J);
  assert(B < 32); uint64_t Dist = std::pow(2, B);\<close>
  The three library calls work on \<open>double\<close>. They are modelled on the natural numbers:
  \<open>ceil_log2 n\<close> is the bit length of \<open>n - 1\<close>. Up to \<open>2^53\<close> the conversion to \<open>double\<close>
  is exact and \<open>log2\<close> keeps apart a power of two and its neighbours; above, the rounded
  value is at least \<open>53\<close> and the assertion fails as it does here. \<open>log2(0)\<close> is minus
  infinity, whose conversion to \<open>unsigned\<close> is undefined; it ends the run.
\<close>

definition ceil_log2 :: "nat \<Rightarrow> nat" where
  "ceil_log2 n = (if n \<le> 1 then 0 else floorlog 2 (n - 1))"

definition solveFF_Dist :: "u64 \<Rightarrow> abort + (nat \<times> u64)" where
  "solveFF_Dist AvgSize' =
     (if AvgSize' = 0 then Inl Log2_of_zero
      else let B = ceil_log2 (unat AvgSize') in
        if \<not> B < 32 then Inl Assert_B_lt_32 else Inr (B, 2 ^ B))"

text \<open>
  \<open>Results\<close> is a \<open>std::map\<close> from section offset to \<open>Result\<close>, iterated in ascending
  key order by \<open>layout\<close>: an association list kept in ascending (unsigned) key order.
  \<open>map_count\<close> is \<open>Results.count(k)\<close> and \<open>map_store\<close> is \<open>Results[k] = v\<close>.
\<close>

type_synonym ResultMap = "(u64 \<times> Result) list"

definition map_count :: "ResultMap \<Rightarrow> u64 \<Rightarrow> nat" where
  "map_count Results k = (if k \<in> fst ` set Results then 1 else 0)"

fun map_store :: "u64 \<Rightarrow> Result \<Rightarrow> ResultMap \<Rightarrow> ResultMap" where
  "map_store k v [] = [(k, v)]"
| "map_store k v ((k', v') # rest) =
     (if k < k' then (k, v) # (k', v') # rest
      else if k = k' then (k, v) # rest
      else (k', v') # map_store k v rest)"

text \<open>The file-level statics \<open>Used\<close> and \<open>Page2Frame\<close> of DBLSolveFF.cpp.\<close>

record solver_statics =
  static_Used :: "u64 set"
  static_Page2Frame :: "u64 \<rightharpoonup> u64"

definition initial_statics :: solver_statics where
  \<comment> \<open>both containers are empty when the program starts\<close>
  "initial_statics = \<lparr>static_Used = {}, static_Page2Frame = Map.empty\<rparr>"

definition new_Result :: "nat \<Rightarrow> Result" where
  "new_Result Idx = \<lparr>ResBundleIdx = Idx, VictimFrame = None, VictimFrameIdx = None,
                      VictimPageOffset = None\<rparr>"

text \<open>Loop 1 of the placement: the destination pairs.\<close>

fun solveFF_dests ::
  "u64 \<Rightarrow> (Block \<times> Block) list \<Rightarrow> FreeListT \<Rightarrow> ResultMap \<Rightarrow> abort + (FreeListT \<times> ResultMap)" where
  "solveFF_dests Dist [] FreeList Results = Inr (FreeList, Results)"
| "solveFF_dests Dist (DestPair # rest) FreeList Results =
     (case assignSpotAtDist FreeList (fst DestPair) (snd DestPair) Dist of
        Inl e \<Rightarrow> Inl e
      | Inr (FreeList', NormalDest, FlipDest) \<Rightarrow>
          if \<not> map_count Results (SectionOffset NormalDest) = 0 then Inl Assert_result_unique
          else
            let Results1 = map_store (SectionOffset NormalDest)
                             (new_Result (BundleIdx NormalDest)) Results
            in if \<not> map_count Results1 (SectionOffset FlipDest) = 0
               then Inl Assert_result_unique
               else solveFF_dests Dist rest FreeList'
                      (map_store (SectionOffset FlipDest)
                         (new_Result (BundleIdx FlipDest)) Results1))"

text \<open>One iteration of loop 2: a fixed or range target, or a bundle without target.\<close>

definition solveFF_victim ::
  "u64 \<Rightarrow> VictimInfo list list \<Rightarrow> Block \<Rightarrow> u64 \<Rightarrow> bool \<Rightarrow>
   FreeListT \<times> ResultMap \<times> solver_statics \<Rightarrow> abort + (FreeListT \<times> ResultMap \<times> solver_statics)" where
  "solveFF_victim PageSize VictimInfos Block Bit' Sign' st =
     (case st of (FreeList, Results, statics) \<Rightarrow>
      case findVictim PageSize VictimInfos (static_Used statics) Block Bit' Sign' of
        Inl e \<Rightarrow> Inl e
      | Inr (R, Used') \<Rightarrow>
        case assignSpotVictim PageSize FreeList (static_Page2Frame statics) Block
               (VictimInfos ! unat (fst R) ! unat (snd R)) of
          Inl e \<Rightarrow> Inl e
        | Inr (FreeList', Page2Frame', Block') \<Rightarrow>
          let Res = (new_Result (BundleIdx Block'))
                      \<lparr>VictimFrame := Some (fst R), VictimFrameIdx := Some (snd R),
                       VictimPageOffset :=
                         Some (TargetOffset (the (TargetVictimInfo Block')) + SectionOffset Block')\<rparr>
          in if \<not> map_count Results (SectionOffset Block') = 0 then Inl Assert_result_unique
             else Inr (FreeList', map_store (SectionOffset Block') Res Results,
                       \<lparr>static_Used = Used', static_Page2Frame = Page2Frame'\<rparr>))"

definition solveFF_target ::
  "u64 \<Rightarrow> VictimInfo list list \<Rightarrow> Bundle list \<Rightarrow> u64 \<Rightarrow> u64 \<Rightarrow> bool \<Rightarrow> Block \<Rightarrow>
   FreeListT \<times> ResultMap \<times> solver_statics \<Rightarrow> abort + (FreeListT \<times> ResultMap \<times> solver_statics)" where
  "solveFF_target PageSize VictimInfos Bundles RangeByteOffset RangeBit RangeSign Block st =
     (case TargetVictimInfo Block of
        Some TVI \<Rightarrow>
          (case Kind (Spec (Bundles ! BundleIdx Block)) of
             TargetFixed b s \<Rightarrow>
               solveFF_victim PageSize VictimInfos Block (to_unsigned b) s st
           | TargetRange r n f \<Rightarrow>
               solveFF_victim PageSize VictimInfos
                 (Block\<lparr>TargetVictimInfo :=
                          Some (TVI\<lparr>TargetOffset := TargetOffset TVI + RangeByteOffset\<rparr>)\<rparr>)
                 RangeBit RangeSign st
           | _ \<Rightarrow> Inl Assert_is_range)
      | None \<Rightarrow>
          (case st of (FreeList, Results, statics) \<Rightarrow>
           case assignSpot 0 FreeList Block of
             Inl e \<Rightarrow> Inl e
           | Inr (Itr, FreeList', Block', RBI) \<Rightarrow>
               if \<not> map_count Results (SectionOffset Block') = 0 then Inl Assert_result_unique
               else Inr (FreeList',
                         map_store (SectionOffset Block') (new_Result (BundleIdx Block')) Results,
                         statics)))"

fun solveFF_targets ::
  "u64 \<Rightarrow> VictimInfo list list \<Rightarrow> Bundle list \<Rightarrow> u64 \<Rightarrow> u64 \<Rightarrow> bool \<Rightarrow> Block list \<Rightarrow>
   FreeListT \<times> ResultMap \<times> solver_statics \<Rightarrow> abort + (FreeListT \<times> ResultMap \<times> solver_statics)" where
  "solveFF_targets PageSize VictimInfos Bundles RangeByteOffset RangeBit RangeSign [] st = Inr st"
| "solveFF_targets PageSize VictimInfos Bundles RangeByteOffset RangeBit RangeSign (Block # rest) st =
     (case solveFF_target PageSize VictimInfos Bundles RangeByteOffset RangeBit RangeSign Block st of
        Inl e \<Rightarrow> Inl e
      | Inr st' \<Rightarrow>
          solveFF_targets PageSize VictimInfos Bundles RangeByteOffset RangeBit RangeSign rest st')"

text \<open>
  \<open>solveFF\<close>: the split and the distance (\<open>solveFF_prepare\<close>), then the two placement
  loops (\<open>solveFF_place\<close>). The free list is a local variable, built anew in every call; \<open>Used\<close> and
  \<open>Page2Frame\<close> are not touched before the placement loops. The function returns the
  result map and the statics as the call leaves them.
\<close>

definition solveFF_prepare ::
  "(Bundle \<Rightarrow> u64) \<Rightarrow> Bundle list \<Rightarrow> abort + (split_state \<times> nat \<times> u64)" where
  "solveFF_prepare getBundleSize Bundles =
     (case solveFF_split getBundleSize Bundles 0 Bundles
             \<lparr>AvgSize = 0, Targets = [], TargetDests = [], MaxNormalDestSize = 0\<rparr> of
        Inl e \<Rightarrow> Inl e
      | Inr split \<Rightarrow>
        case solveFF_Dist (AvgSize split) of
          Inl e \<Rightarrow> Inl e
        | Inr (B, Dist) \<Rightarrow> Inr (split, B, Dist))"

definition solveFF_place ::
  "u64 \<Rightarrow> VictimInfo list list \<Rightarrow> Bundle list \<Rightarrow> split_state \<Rightarrow> nat \<Rightarrow> u64 \<Rightarrow>
   FreeListT \<Rightarrow> ResultMap \<Rightarrow> solver_statics \<Rightarrow> abort + (ResultMap \<times> solver_statics)" where
  "solveFF_place PageSize VictimInfos Bundles split B Dist FreeList Results statics =
     (let RangeByteOffset = word_of_nat (B div 8);
          RangeBit = word_of_nat (B mod 8);
          RangeSign = True
      in
      case solveFF_dests Dist (TargetDests split) FreeList Results of
        Inl e \<Rightarrow> Inl e
      | Inr (FreeList1, Results1) \<Rightarrow>
        case solveFF_targets PageSize VictimInfos Bundles RangeByteOffset RangeBit RangeSign
               (Targets split) (FreeList1, Results1, statics) of
          Inl e \<Rightarrow> Inl e
        | Inr (FreeList2, Results2, statics') \<Rightarrow> Inr (Results2, statics'))"

definition solveFF ::
  "u64 \<Rightarrow> VictimInfo list list \<Rightarrow> (Bundle \<Rightarrow> u64) \<Rightarrow> Bundle list \<Rightarrow> ResultMap \<Rightarrow>
   solver_statics \<Rightarrow> abort + (ResultMap \<times> solver_statics)" where
  "solveFF PageSize VictimInfos getBundleSize Bundles Results statics =
     (case solveFF_prepare getBundleSize Bundles of
        Inl e \<Rightarrow> Inl e
      | Inr (split, B, Dist) \<Rightarrow>
          let FreeList = [(0, UINT64_MAX div 2)]
          in solveFF_place PageSize VictimInfos Bundles split B Dist FreeList Results statics)"

text \<open>
  Test data. Scenario 1: one bundle with a fixed target (bit 3, sign \<open>+\<close>) at offset
  \<open>0x120\<close> of its first fragment, one victim at \<open>0x4130\<close>. Scenario 2: a range target \<open>A\<close>
  of 32 bytes whose destinations \<open>N\<close> and \<open>F\<close> have 16 bytes each.
\<close>

definition mk_bundle :: "TargetKind \<Rightarrow> u64 \<Rightarrow> u64 \<Rightarrow> Bundle" where
  "mk_bundle k out off = \<lparr>Spec = \<lparr>TargetOffsetInOutput = out, Kind = k,
                                 TargetOffsetInFragment = off\<rparr>,
                        BundleBegin = 0, BundleEnd = 0\<rparr>"

definition scenario1_bundles :: "Bundle list" where
  "scenario1_bundles = [mk_bundle (TargetFixed 3 True) 0x120 0x120]"

definition scenario1_size :: "Bundle \<Rightarrow> u64" where
  "scenario1_size b = 0x200"

definition scenario1_victims :: "VictimInfo list list" where
  "scenario1_victims = [[victim 0x4130 3 True]]"

definition scenario2_N :: Block where
  "scenario2_N = \<lparr>BundleIdx = 1, BlockSize = 16, SectionOffset = 0, TargetVictimInfo = None\<rparr>"

definition scenario2_F :: Block where
  "scenario2_F = \<lparr>BundleIdx = 2, BlockSize = 16, SectionOffset = 0, TargetVictimInfo = None\<rparr>"

definition scenario2_bundles :: "Bundle list" where
  "scenario2_bundles = [mk_bundle (TargetRange 4 1 2) 0x100 1,
                        mk_bundle TargetDestination 0x120 0, mk_bundle TargetDestination 0x130 0]"

definition scenario2_size :: "Bundle \<Rightarrow> u64" where
  "scenario2_size b = (case Kind (Spec b) of TargetRange r n f \<Rightarrow> 32 | _ \<Rightarrow> 16)"

definition huge_size :: "Bundle \<Rightarrow> u64" where
  "huge_size b = 0x80000001"

text \<open>
  Successive invocations of \<open>solveFF\<close> in one process. \<open>Used\<close> and \<open>Page2Frame\<close> are
  statics of the translation unit: what one invocation leaves in them is what the next
  one finds. \<open>solveFF_starts\<close> lists the statics at the start of each invocation; an
  invocation that aborts ends the process.
\<close>

record solve_call =
  call_PageSize :: u64
  call_VictimInfos :: "VictimInfo list list"
  call_getBundleSize :: "Bundle \<Rightarrow> u64"
  call_Bundles :: "Bundle list"

fun solveFF_starts :: "solver_statics \<Rightarrow> solve_call list \<Rightarrow> solver_statics list" where
  "solveFF_starts statics [] = []"
| "solveFF_starts statics (c # cs) =
     statics #
     (case solveFF (call_PageSize c) (call_VictimInfos c) (call_getBundleSize c)
             (call_Bundles c) [] statics of
        Inl e \<Rightarrow> []
      | Inr (Results, statics') \<Rightarrow> solveFF_starts statics' cs)"

definition statics_le :: "solver_statics \<Rightarrow> solver_statics \<Rightarrow> bool" where
  "statics_le a b \<longleftrightarrow>
     static_Used a \<subseteq> static_Used b \<and> static_Page2Frame a \<subseteq>\<^sub>m static_Page2Frame b"

definition scenario1_call :: solve_call where
  "scenario1_call = \<lparr>call_PageSize = 4096, call_VictimInfos = scenario1_victims,
                       call_getBundleSize = scenario1_size, call_Bundles = scenario1_bundles\<rparr>"

subsection \<open>The operating mode and the fixup policy (DBLCLIArgs, \<open>fixupNeedsRelaxation\<close>)\<close>

datatype DBLModeT = Baseline | Offsets | DBL

text \<open>
  \<open>MCAssembler::fixupNeedsRelaxation\<close>. The target value is a default-constructed
  \<open>MCValue\<close> (no symbols); \<open>evaluateFixup\<close>, which would fill it, is only called in
  baseline mode, after the test of \<open>Target.getSymA()\<close>. The host's evaluation of the fixup
  followed by the backend's \<open>fixupNeedsRelaxationAdvanced\<close> is the function
  \<open>host_decision\<close> of the fixup.
\<close>

datatype VariantKind = VK_None | VK_X86_ABS8 | VK_other

datatype MCFixupKind = FK_Data_1 | FK_Data_4 | FK_PCRel_1 | FK_PCRel_4 | FK_other

record MCValue =
  SymA :: "VariantKind option"
  SymB :: "VariantKind option"
  Cst :: int

definition default_MCValue :: MCValue where
  "default_MCValue = \<lparr>SymA = None, SymB = None, Cst = 0\<rparr>"

definition fixupNeedsRelaxation ::
  "DBLModeT \<Rightarrow> bool \<Rightarrow> (MCFixupKind \<Rightarrow> bool) \<Rightarrow> MCFixupKind \<Rightarrow> abort + bool" where
  "fixupNeedsRelaxation DBLMode hasBackend host_decision Fixup =
     (if \<not> hasBackend then Inl Assert_backend
      else let Target = default_MCValue in
        if SymA Target \<noteq> None \<and> SymA Target = Some VK_X86_ABS8 \<and> Fixup = FK_Data_1
        then Inr False
        else if DBLMode = Baseline then Inr (host_decision Fixup)
        else Inr True)"

text \<open>
  \<open>MCAssembler::fragmentNeedsRelaxation\<close>: \<open>mayNeedRelaxation\<close> is the backend's answer
  for the instruction of the relaxable fragment.
\<close>

fun any_fixup_needs_relaxation ::
  "DBLModeT \<Rightarrow> bool \<Rightarrow> (MCFixupKind \<Rightarrow> bool) \<Rightarrow> MCFixupKind list \<Rightarrow> abort + bool" where
  "any_fixup_needs_relaxation DBLMode hasBackend host_decision [] = Inr False"
| "any_fixup_needs_relaxation DBLMode hasBackend host_decision (Fixup # rest) =
     (case fixupNeedsRelaxation DBLMode hasBackend host_decision Fixup of
        Inl e \<Rightarrow> Inl e
      | Inr True \<Rightarrow> Inr True
      | Inr False \<Rightarrow> any_fixup_needs_relaxation DBLMode hasBackend host_decision rest)"

definition fragmentNeedsRelaxation ::
  "DBLModeT \<Rightarrow> bool \<Rightarrow> (MCFixupKind \<Rightarrow> bool) \<Rightarrow> bool \<Rightarrow> MCFixupKind list \<Rightarrow> abort + bool" where
  "fragmentNeedsRelaxation DBLMode hasBackend host_decision mayNeedRelaxation Fixups =
     (if \<not> hasBackend then Inl Assert_backend
      else if \<not> mayNeedRelaxation then Inr False
      else any_fixup_needs_relaxation DBLMode hasBackend host_decision Fixups)"

subsection \<open>The section's fragments, labels and bridge jumps (\<open>MCAssembler::layout\<close>, round 2)\<close>

text \<open>
  The fragment list of the DBL text section is an intrusive list; \<open>BundleBegin\<close>,
  \<open>BundleEnd\<close> and \<open>SwapSpot\<close> are iterators that stay on their fragment while others are
  inserted or moved. A fragment is therefore known by an identity (a number), the list
  holds identities in section order, and an iterator is the identity it stands on
  (\<open>None\<close> for \<open>end()\<close>).

  Of a fragment the model keeps its class, the size of its contents and the jumps
  appended to it. \<open>DBLFragment\<close> is a fragment for which \<open>dyn_cast<MCDBLFragment>\<close>
  succeeds, \<open>FillFragment v s n\<close> is \<open>MCFillFragment(v, s, n)\<close>.
\<close>

datatype MCSymbol = TempSymbol nat | padding_before_bundle nat

datatype MCFragment =
    DBLFragment u64 "MCSymbol list"
  | AlignFragment
  | FillFragment u64 nat int
  | OtherFragment

record MCSection =
  FragList :: "nat list"
  Frags :: "nat \<Rightarrow> MCFragment"
  Symbols :: "(MCSymbol \<times> nat \<times> u64) list"
  NextTemp :: nat
  NextFrag :: nat

fun is_DBLFragment :: "MCFragment \<Rightarrow> bool" where
  "is_DBLFragment (DBLFragment sz js) = True"
| "is_DBLFragment F = False"

fun is_FillFragment :: "MCFragment \<Rightarrow> bool" where
  "is_FillFragment (FillFragment v s n) = True"
| "is_FillFragment F = False"

fun Jmps :: "MCFragment \<Rightarrow> MCSymbol list" where
  "Jmps (DBLFragment sz js) = js"
| "Jmps F = []"

fun ContentsSize :: "MCFragment \<Rightarrow> u64" where
  "ContentsSize (DBLFragment sz js) = sz"
| "ContentsSize F = 0"

text \<open>
  Modelled from the spec: \<open>MCDBLFragment::addJmp\<close> is not part of the sources. The
  specification says that the bundle's tail "is extended with a 5-byte direct jump to
  that label" (the source prints "Adding jmp instruction (5 bytes) in every bundle").
\<close>

fun addJmp :: "MCSymbol \<Rightarrow> MCFragment \<Rightarrow> MCFragment" where
  "addJmp Label (DBLFragment sz js) = DBLFragment (sz + 5) (js @ [Label])"
| "addJmp Label F = F"

text \<open>Position of a fragment in the list, and the iterator steps \<open>I--\<close> and \<open>std::next\<close>.\<close>

fun index_of :: "nat list \<Rightarrow> nat \<Rightarrow> nat" where
  "index_of [] f = 0"
| "index_of (g # gs) f = (if g = f then 0 else Suc (index_of gs f))"

definition prev_frag :: "nat list \<Rightarrow> nat \<Rightarrow> nat option" where
  \<comment> \<open>\<open>None\<close>: the iterator is not in the list or stands on \<open>begin()\<close>\<close>
  "prev_frag fs f =
     (if f \<in> set fs \<and> 0 < index_of fs f then Some (fs ! (index_of fs f - 1)) else None)"

text \<open>
  The search for the last \<open>MCDBLFragment\<close> of a bundle:
  \<^verbatim>\<open>MCDBLFragment* EndFrag = dyn_cast<MCDBLFragment>(Itr->BundleEnd);
  while(!EndFrag) {
    assert(Itr->BundleEnd->getKind() == MCFragment::FragmentType::FT_Align);
    auto I = Itr->BundleEnd; I--;
    EndFrag = dyn_cast<MCDBLFragment>(I);
  }\<close>
  The body starts from the unchanged \<open>BundleEnd\<close> every time: when the fragment before an
  align fragment is no \<open>MCDBLFragment\<close> either, every further round does the same and the
  loop does not end, which the model records as \<open>Loops_forever\<close>.
\<close>

definition find_EndFrag :: "MCSection \<Rightarrow> Bundle \<Rightarrow> abort + nat" where
  "find_EndFrag S B =
     (if is_DBLFragment (Frags S (BundleEnd B)) then Inr (BundleEnd B)
      else if \<not> Frags S (BundleEnd B) = AlignFragment then Inl Assert_end_is_align
      else case prev_frag (FragList S) (BundleEnd B) of
             None \<Rightarrow> Inl Iterator_out_of_range
           | Some I \<Rightarrow> if is_DBLFragment (Frags S I) then Inr I else Inl Loops_forever)"

text \<open>One round of the loop over the bundles, and the loop in the order it visits them.\<close>

definition bridge_step ::
  "Bundle \<Rightarrow> MCSymbol option \<times> MCSection \<Rightarrow> abort + (MCSymbol option \<times> MCSection)" where
  "bridge_step B st =
     (case st of (PrevLabel, S) \<Rightarrow>
      case find_EndFrag S B of
        Inl e \<Rightarrow> Inl e
      | Inr EndFrag \<Rightarrow>
          let S1 = (case PrevLabel of
                      None \<Rightarrow> S
                    | Some L \<Rightarrow> S\<lparr>Frags := (Frags S)(EndFrag := addJmp L (Frags S EndFrag))\<rparr>);
              BeginFrag = BundleBegin B
          in if is_FillFragment (Frags S1 BeginFrag) then Inl Assert_not_fill_fragment
             else let Label = TempSymbol (NextTemp S1)
                  in Inr (Some Label,
                          S1\<lparr>NextTemp := Suc (NextTemp S1),
                             Symbols := Symbols S1 @ [(Label, BeginFrag, 0)]\<rparr>))"

fun bridge_loop ::
  "Bundle list \<Rightarrow> MCSymbol option \<times> MCSection \<Rightarrow> abort + (MCSymbol option \<times> MCSection)" where
  "bridge_loop [] st = Inr st"
| "bridge_loop (B # rest) st =
     (case bridge_step B st of Inl e \<Rightarrow> Inl e | Inr st' \<Rightarrow> bridge_loop rest st')"

definition insert_bridge_jumps :: "Bundle list \<Rightarrow> MCSection \<Rightarrow> abort + MCSection" where
  \<comment> \<open>\<open>for(auto Itr = Bundles.rbegin(); Itr != Bundles.rend(); Itr++)\<close>, \<open>PrevLabel = nullptr\<close>\<close>
  "insert_bridge_jumps Bundles S =
     (case bridge_loop (rev Bundles) (None, S) of
        Inl e \<Rightarrow> Inl e
      | Inr (PrevLabel, S') \<Rightarrow> Inr S')"

text \<open>Test data: a section of two bundles of one fragment each.\<close>

definition two_fragments :: MCSection where
  "two_fragments = \<lparr>FragList = [0, 1],
                     Frags = (\<lambda>f. if f = 0 then DBLFragment 7 [] else DBLFragment 9 []),
                     Symbols = [], NextTemp = 0, NextFrag = 2\<rparr>"

definition two_bundles :: "Bundle list" where
  "two_bundles = [(mk_bundle (TargetFixed 3 True) 0 0)\<lparr>BundleBegin := 0, BundleEnd := 0\<rparr>,
                  (mk_bundle TargetNone 7 0)\<lparr>BundleBegin := 1, BundleEnd := 1\<rparr>]"

definition same_shape :: "MCSection \<Rightarrow> MCSection \<Rightarrow> bool" where
  \<comment> \<open>same list, and every fragment of the same class\<close>
  "same_shape S T \<longleftrightarrow>
     FragList S = FragList T \<and>
     (\<forall>f. is_DBLFragment (Frags S f) = is_DBLFragment (Frags T f) \<and>
          (Frags S f = AlignFragment) = (Frags T f = AlignFragment))"

subsection \<open>The section rewrite of round 2 (\<open>MCAssembler::layout\<close>)\<close>

definition next_frag :: "nat list \<Rightarrow> nat \<Rightarrow> nat option" where
  \<comment> \<open>\<open>std::next\<close> of an iterator of the list; \<open>None\<close> is \<open>end()\<close>\<close>
  "next_frag fs f =
     (if Suc (index_of fs f) < length fs then Some (fs ! Suc (index_of fs f)) else None)"

definition position :: "nat list \<Rightarrow> nat option \<Rightarrow> nat" where
  "position fs it = (case it of None \<Rightarrow> length fs | Some f \<Rightarrow> index_of fs f)"

definition set_symbol ::
  "MCSymbol \<Rightarrow> nat \<Rightarrow> u64 \<Rightarrow> (MCSymbol \<times> nat \<times> u64) list \<Rightarrow> (MCSymbol \<times> nat \<times> u64) list" where
  \<comment> \<open>\<open>getOrCreateSymbol\<close>, \<open>registerSymbol\<close>, \<open>setFragment\<close>, \<open>setOffset\<close>\<close>
  "set_symbol Label f off syms =
     (if Label \<in> fst ` set syms
      then map (\<lambda>e. if fst e = Label then (Label, f, off) else e) syms
      else syms @ [(Label, f, off)])"

text \<open>
  One round of the loop over \<open>ResultMap\<close>. The state is the section, the iterator
  \<open>SwapSpot\<close> and \<open>LastEnd\<close>. \<open>Fill\<close> is an \<open>int64_t\<close>. The fill fragment is a new fragment
  (identity \<open>NextFrag\<close>) inserted before \<open>SwapSpot\<close>. A bundle that is not at \<open>SwapSpot\<close> is
  taken out of the list, from \<open>BundleBegin\<close> up to and including \<open>BundleEnd\<close>, and put
  back before \<open>SwapSpot\<close>. Walking off the list, an index outside \<open>Bundles\<close> and a
  \<open>SwapSpot\<close> inside the bundle that is moved end the run.
\<close>

definition rewrite_step ::
  "(Bundle \<Rightarrow> u64) \<Rightarrow> Bundle list \<Rightarrow> u64 \<times> Result \<Rightarrow> MCSection \<times> nat option \<times> u64 \<Rightarrow>
   abort + (MCSection \<times> nat option \<times> u64)" where
  "rewrite_step getBundleSize Bundles Pr st =
     (case st of (S, SwapSpot, LastEnd) \<Rightarrow>
      let BundleSectionOffset = fst Pr;
          BundleIdx' = ResBundleIdx (snd Pr)
      in
      if \<not> BundleIdx' < length Bundles then Inl Index_out_of_range
      else if BundleEnd (Bundles ! BundleIdx') \<notin> set (FragList S) then Inl Iterator_out_of_range
      else
        let TmpItrBegin = BundleBegin (Bundles ! BundleIdx');
            TmpItrEnd = next_frag (FragList S) (BundleEnd (Bundles ! BundleIdx'));
            Fill = BundleSectionOffset - LastEnd
        in
        if \<not> 0 \<le> sint Fill then Inl Assert_Fill_nonneg
        else
          let FillFrag = NextFrag S;
              S1 = S\<lparr>Frags := (Frags S)(FillFrag := FillFragment 0xcc 1 (sint Fill)),
                     NextFrag := Suc FillFrag,
                     FragList := list_insert (FragList S) (position (FragList S) SwapSpot) FillFrag\<rparr>;
              LastEnd' = LastEnd + Fill + getBundleSize (Bundles ! BundleIdx');
              S2 = S1\<lparr>Symbols := set_symbol (padding_before_bundle BundleIdx') FillFrag 0
                                      (Symbols S1)\<rparr>
          in
          if SwapSpot \<noteq> Some TmpItrBegin then
            let fl = FragList S2;
                i = index_of fl TmpItrBegin;
                j = position fl TmpItrEnd
            in
            if TmpItrBegin \<notin> set fl \<or> j < i then Inl Iterator_out_of_range
            else
              let ToReplace = take (j - i) (drop i fl);
                  remaining = take i fl @ drop j fl
              in
              if SwapSpot \<in> Some ` set ToReplace then Inl Iterator_out_of_range
              else Inr (S2\<lparr>FragList := take (position remaining SwapSpot) remaining @ ToReplace
                                          @ drop (position remaining SwapSpot) remaining\<rparr>,
                        SwapSpot, LastEnd')
          else Inr (S2, TmpItrEnd, LastEnd'))"

fun rewrite_loop ::
  "(Bundle \<Rightarrow> u64) \<Rightarrow> Bundle list \<Rightarrow> ResultMap \<Rightarrow> MCSection \<times> nat option \<times> u64 \<Rightarrow>
   abort + (MCSection \<times> nat option \<times> u64)" where
  "rewrite_loop getBundleSize Bundles [] st = Inr st"
| "rewrite_loop getBundleSize Bundles (Pr # rest) st =
     (case rewrite_step getBundleSize Bundles Pr st of
        Inl e \<Rightarrow> Inl e
      | Inr st' \<Rightarrow> rewrite_loop getBundleSize Bundles rest st')"

definition rewrite_section ::
  "(Bundle \<Rightarrow> u64) \<Rightarrow> Bundle list \<Rightarrow> ResultMap \<Rightarrow> MCSection \<Rightarrow> abort + MCSection" where
  \<comment> \<open>\<open>SwapSpot = FragList.begin(); LastEnd = 0\<close>, then the loop\<close>
  "rewrite_section getBundleSize Bundles ResultMap' S =
     (case rewrite_loop getBundleSize Bundles ResultMap'
             (S, (case FragList S of [] \<Rightarrow> None | f # fs \<Rightarrow> Some f), 0) of
        Inl e \<Rightarrow> Inl e
      | Inr (S', SwapSpot, LastEnd) \<Rightarrow> Inr S')"

definition ascending :: "ResultMap \<Rightarrow> bool" where
  \<comment> \<open>strictly ascending keys: no two results share a section offset\<close>
  "ascending R \<longleftrightarrow> sorted_wrt (<) (map fst R)"




subsection \<open>The configuration (\<open>MCAssembler::readConfig\<close>)\<close>

text \<open>
  \<open>readConfig\<close> parses two files with the host's libraries (\<open>toml::parse_file\<close>,
  \<open>std::getline\<close>, \<open>std::stol\<close>). The model starts from what was parsed: the sections of
  the target offsets file with their entries, and the data lines of the victim addresses
  file as \<open>VictimInfo\<close> values; \<open>None\<close> is a file that cannot be opened or parsed. An entry of
  type \<open>"none"\<close> has an offset, one of type \<open>"fixed"\<close> an offset, a bit and a sign, one of
  type \<open>"range"\<close> a start offset, a range and two destination offsets; every other type
  is skipped. The third member of a \<open>TargetSpec\<close>, the offset in the fragment, is not given
  by \<open>readConfig\<close>; the model starts it at \<open>0\<close>.
\<close>

datatype config_entry =
    Entry_none u64
  | Entry_fixed u64 u64 bool
  | Entry_range u64 u64 u64 u64
  | Entry_other

definition new_spec :: "u64 \<Rightarrow> TargetKind \<Rightarrow> TargetSpec" where
  "new_spec off k = \<lparr>TargetOffsetInOutput = off, Kind = k, TargetOffsetInFragment = 0\<rparr>"

fun entry_specs :: "config_entry \<Rightarrow> abort + TargetSpec list" where
  "entry_specs (Entry_none Offset) = Inr [new_spec Offset TargetNone]"
| "entry_specs (Entry_fixed Offset b s) = Inr [new_spec Offset (TargetFixed b s)]"
| "entry_specs (Entry_range StartOffset DestAddrRange OffsetNormalDest OffsetFlippedDest) =
     (if \<not> to_unsigned DestAddrRange = 4 then Inl Assert_range_is_4
      else Inr [new_spec StartOffset
                  (TargetRange (to_unsigned DestAddrRange) OffsetNormalDest OffsetFlippedDest),
                new_spec OffsetNormalDest TargetDestination,
                new_spec OffsetFlippedDest TargetDestination])"
| "entry_specs Entry_other = Inr []"

text \<open>
  \<open>TargetsToFindForSection\<close> maps a section name to a \<open>std::list\<close> of targets; it is an
  association list here, one entry per name. (The order of the names, alphabetical in the
  source, plays no part: the map is only looked up by name and checked for every name.)
\<close>

fun push_back_target ::
  "string \<Rightarrow> TargetSpec \<Rightarrow> (string \<times> TargetSpec list) list \<Rightarrow> (string \<times> TargetSpec list) list" where
  "push_back_target SecName T [] = [(SecName, [T])]"
| "push_back_target SecName T ((n, ts) # rest) =
     (if n = SecName then (n, ts @ [T]) # rest else (n, ts) # push_back_target SecName T rest)"

fun read_values ::
  "string \<Rightarrow> config_entry list \<Rightarrow> (string \<times> TargetSpec list) list \<Rightarrow>
   abort + (string \<times> TargetSpec list) list" where
  "read_values SecName [] m = Inr m"
| "read_values SecName (E # Es) m =
     (case entry_specs E of
        Inl e \<Rightarrow> Inl e
      | Inr Ts \<Rightarrow> read_values SecName Es (fold (push_back_target SecName) Ts m))"

fun read_sections ::
  "(string \<times> config_entry list) list \<Rightarrow> (string \<times> TargetSpec list) list \<Rightarrow>
   abort + (string \<times> TargetSpec list) list" where
  "read_sections [] m = Inr m"
| "read_sections ((SecName, Es) # rest) m =
     (case read_values SecName Es m of Inl e \<Rightarrow> Inl e | Inr m' \<Rightarrow> read_sections rest m')"

text \<open>
  The victims are collected in a \<open>std::map\<close> from the frame address
  \<open>Addr & PageAddrMask\<close> to the victims of that frame, in file order, and the map's values
  are appended to \<open>VictimInfos\<close> in ascending order of the frame address. \<open>PageAddrMask\<close> is
  declared outside the sources and is a parameter.
\<close>

definition group_victims :: "u64 \<Rightarrow> VictimInfo list \<Rightarrow> VictimInfo list list" where
  "group_victims Mask vs =
     map (\<lambda>frame. filter (\<lambda>V. VictimAddr V AND Mask = frame) vs)
       (sort (remdups (map (\<lambda>V. VictimAddr V AND Mask) vs)))"

subsection \<open>The two-round driver \<open>MCAssembler::Finish\<close>\<close>

text \<open>
  The assembler as \<open>Finish\<close> finds it: the mode and the options, what is in the two
  configuration files, the members \<open>VictimInfos\<close> and \<open>TargetsToFindForSection\<close>, and the
  DBL text section with its name. \<open>FragTargetSpec\<close> is the optional member \<open>TargetSpec\<close> of
  the section's \<open>MCDBLFragment\<close>s. The sections other than the DBL text section are not
  part of the model.

  The host's own work is a parameter: \<open>computeFragmentSize\<close> gives the size of each fragment
  in round 1, \<open>getBundleSize\<close> the size of a bundle, and \<open>HostAborts\<close> says which of the
  host's steps (relaxation and layout, fixup application with the post-layout binding,
  \<open>Layout.getFragmentOffset\<close> on the rewritten section, \<open>writeObject\<close>) ends the run.
\<close>

datatype host_step =
    Host_layout nat
  | Host_fixups nat
  | Host_writeObject nat
  | Host_final_offsets

record assembler =
  Mode :: DBLModeT
  BundlingEnabled :: bool
  TargetOffsetsPath :: string
  VictimAddressesPath :: string
  CompilerOutputPath :: string
  TargetOffsetsFile :: "(string \<times> config_entry list) list option"
  VictimAddressesFile :: "VictimInfo list option"
  asm_PageSize :: u64
  PageAddrMask :: u64
  asm_VictimInfos :: "VictimInfo list list"
  TargetsToFindForSection :: "(string \<times> TargetSpec list) list"
  TextSecName :: string
  TextSec :: MCSection
  FragTargetSpec :: "nat \<rightharpoonup> TargetSpec"
  computeFragmentSize :: "nat \<Rightarrow> u64"
  asm_getBundleSize :: "Bundle \<Rightarrow> u64"
  HostAborts :: "host_step \<Rightarrow> bool"

definition readConfig :: "assembler \<Rightarrow> abort + assembler" where
  "readConfig A =
     (case TargetOffsetsFile A of
        None \<Rightarrow> Inl Assert_config_parsed
      | Some sections \<Rightarrow>
        case read_sections sections (TargetsToFindForSection A) of
          Inl e \<Rightarrow> Inl e
        | Inr m \<Rightarrow>
          let sorted = map (\<lambda>(n, ts). (n, sort_key TargetOffsetInOutput ts)) m in
          case VictimAddressesFile A of
            None \<Rightarrow> Inl Assert_victims_open
          | Some vs \<Rightarrow>
              Inr (A\<lparr>TargetsToFindForSection := sorted,
                     asm_VictimInfos := asm_VictimInfos A @ group_victims (PageAddrMask A) vs\<rparr>))"

text \<open>
  Round 1 writes the object, and \<open>writeFragment\<close> looks in every \<open>MCDBLFragment\<close> for the
  first target still to be found in its section. \<open>CurrentOffset\<close> is the number of bytes
  of the section written so far. A fixed or range target is matched by the fragment that
  holds its offset, a destination by the fragment that starts at its offset, an ignored
  offset by whichever \<open>MCDBLFragment\<close> comes next. At most one target is matched per
  fragment.
\<close>

definition match_target :: "TargetSpec \<Rightarrow> u64 \<Rightarrow> u64 \<Rightarrow> TargetSpec option" where
  "match_target Target CurrentOffset FragmentSize =
     (if isTarget Target \<and> CurrentOffset \<le> TargetOffsetInOutput Target \<and>
         TargetOffsetInOutput Target < CurrentOffset + FragmentSize
      then Some (Target\<lparr>TargetOffsetInFragment := TargetOffsetInOutput Target - CurrentOffset\<rparr>)
      else if Kind Target = TargetDestination
      then (if CurrentOffset = TargetOffsetInOutput Target then Some Target else None)
      else if Kind Target = TargetNone then Some Target
      else None)"

definition writeFragment :: "assembler \<Rightarrow> nat \<Rightarrow> u64 \<Rightarrow> assembler" where
  "writeFragment A F CurrentOffset =
     (case map_of (TargetsToFindForSection A) (TextSecName A) of
        Some (Target # TargetsToFind) \<Rightarrow>
          if is_DBLFragment (Frags (TextSec A) F) \<and> Mode A = DBL then
            (case match_target Target CurrentOffset (computeFragmentSize A F) of
               Some T \<Rightarrow>
                 A\<lparr>FragTargetSpec := (FragTargetSpec A)(F \<mapsto> T),
                   TargetsToFindForSection :=
                     map (\<lambda>(n, ts). if n = TextSecName A then (n, TargetsToFind) else (n, ts))
                       (TargetsToFindForSection A)\<rparr>
             | None \<Rightarrow> A)
          else A
      | _ \<Rightarrow> A)"

fun writeSectionData :: "nat list \<Rightarrow> u64 \<Rightarrow> assembler \<Rightarrow> assembler" where
  "writeSectionData [] CurrentOffset A = A"
| "writeSectionData (F # rest) CurrentOffset A =
     writeSectionData rest (CurrentOffset + computeFragmentSize A F)
       (writeFragment A F CurrentOffset)"

text \<open>
  Round 2 of \<open>layout\<close> first forms the bundles. The fragment list is walked from the back;
  align fragments are passed over, every other fragment must be an \<open>MCDBLFragment\<close>, and a
  fragment with a \<open>TargetSpec\<close> closes a bundle that runs from it up to \<open>BundleEnd\<close>.
  \<open>BundleEnd\<close> starts on the last fragment and is moved to the fragment in front of each
  cut (\<open>None\<close> when there is none). \<open>BundleMap\<close> records for each target offset the number
  of bundles at the time; the vector is reversed afterwards.
\<close>

fun cut_bundles ::
  "(nat \<Rightarrow> MCFragment) \<Rightarrow> (nat \<rightharpoonup> TargetSpec) \<Rightarrow> nat list \<Rightarrow> nat option \<Rightarrow>
   Bundle list \<times> (u64 \<rightharpoonup> nat) \<Rightarrow> abort + (Bundle list \<times> (u64 \<rightharpoonup> nat))" where
  "cut_bundles Fr Sp [] BundleEnd' st = Inr st"
| "cut_bundles Fr Sp (Itr # rest) BundleEnd' st =
     (if Fr Itr = AlignFragment then cut_bundles Fr Sp rest BundleEnd' st
      else if \<not> is_DBLFragment (Fr Itr) then Inl Assert_is_DBLFragment
      else case Sp Itr of
             None \<Rightarrow> cut_bundles Fr Sp rest BundleEnd' st
           | Some Spec' \<Rightarrow>
               (case BundleEnd' of
                  None \<Rightarrow> Inl Iterator_out_of_range
                | Some E \<Rightarrow>
                    let Bundles' = fst st @ [\<lparr>Spec = Spec', BundleBegin = Itr, BundleEnd = E\<rparr>]
                    in if \<not> snd st (TargetOffsetInOutput Spec') = None
                       then Inl Assert_bundle_unique
                       else cut_bundles Fr Sp rest
                              (case rest of [] \<Rightarrow> None | G # others \<Rightarrow> Some G)
                              (Bundles',
                               (snd st)(TargetOffsetInOutput Spec' \<mapsto> length Bundles'))))"

text \<open>
  "find destinations": the destination offsets of a range target become indices into the
  reversed vector.
\<close>

definition convert_dest :: "(u64 \<rightharpoonup> nat) \<Rightarrow> nat \<Rightarrow> Bundle \<Rightarrow> abort + Bundle" where
  "convert_dest BundleMap n B =
     (case Kind (Spec B) of
        TargetRange r NormalDest FlipDest \<Rightarrow>
          (case BundleMap NormalDest of
             None \<Rightarrow> Inl Assert_dest_found
           | Some i \<Rightarrow>
             case BundleMap FlipDest of
               None \<Rightarrow> Inl Assert_dest_found
             | Some j \<Rightarrow>
                 Inr (B\<lparr>Spec := (Spec B)\<lparr>Kind := TargetRange r (word_of_nat (n - i))
                                                    (word_of_nat (n - j))\<rparr>\<rparr>))
      | _ \<Rightarrow> Inr B)"

fun convert_dests :: "(u64 \<rightharpoonup> nat) \<Rightarrow> nat \<Rightarrow> Bundle list \<Rightarrow> abort + Bundle list" where
  "convert_dests BundleMap n [] = Inr []"
| "convert_dests BundleMap n (B # rest) =
     (case convert_dest BundleMap n B of
        Inl e \<Rightarrow> Inl e
      | Inr B' \<Rightarrow>
        case convert_dests BundleMap n rest of Inl e \<Rightarrow> Inl e | Inr rest' \<Rightarrow> Inr (B' # rest'))"

definition form_bundles :: "MCSection \<Rightarrow> (nat \<rightharpoonup> TargetSpec) \<Rightarrow> abort + Bundle list" where
  "form_bundles S Sp =
     (case cut_bundles (Frags S) Sp (rev (FragList S))
             (case rev (FragList S) of [] \<Rightarrow> None | F # others \<Rightarrow> Some F) ([], Map.empty) of
        Inl e \<Rightarrow> Inl e
      | Inr (Bundles, BundleMap) \<Rightarrow> convert_dests BundleMap (length Bundles) (rev Bundles))"

text \<open>
  \<open>printSectionLayout\<close> prints, and asserts on its way: from a fragment that begins a
  bundle it walks to the bundle's end, and every fragment on the way that is no align
  fragment must be an \<open>MCDBLFragment\<close>; the walk leaves the list when the end is not
  ahead. The state \<open>Some E\<close> is a walk towards \<open>E\<close>.
\<close>

fun printSectionLayout ::
  "(nat \<Rightarrow> MCFragment) \<Rightarrow> Bundle list \<Rightarrow> nat option \<Rightarrow> nat list \<Rightarrow> abort option" where
  "printSectionLayout Fr Bundles None [] = None"
| "printSectionLayout Fr Bundles (Some E) [] = Some Iterator_out_of_range"
| "printSectionLayout Fr Bundles walk (FragItr # rest) =
     (case (case walk of
              Some E \<Rightarrow> Some E
            | None \<Rightarrow> map_option BundleEnd (find (\<lambda>T. BundleBegin T = FragItr) Bundles)) of
        None \<Rightarrow> printSectionLayout Fr Bundles None rest
      | Some E \<Rightarrow>
          if \<not> Fr FragItr = AlignFragment \<and> \<not> is_DBLFragment (Fr FragItr)
          then Some Assert_is_DBLFragment
          else printSectionLayout Fr Bundles (if FragItr = E then None else Some E) rest)"

text \<open>
  What the run leaves behind, in order: each \<open>writeObject\<close> with the fragments of the DBL
  text section as it writes them, the reset of the writer, the opening of the two result
  files \<open>compiler_output_<id>.txt\<close> and \<open>page_allocation_<id>.txt\<close> (with the header lines
  of the first), each row, and the closing of the files. A row stands for one line in
  each file: the first file gets the section offset of the victim page offset, the
  victim's address, bit and sign, the aggressors and their initial value, the second the
  aggressors and the victim's address.
\<close>

record layout_row =
  RowVictimPageOffset :: u64
  RowVictimAddr :: u64
  RowBit :: int
  RowSign :: bool
  RowAggrs :: "u64 list"
  RowAggrInit :: u64

datatype written =
    Object "MCFragment list"
  | Writer_reset
  | Files_opened
  | Row layout_row
  | Files_closed

definition section_contents :: "MCSection \<Rightarrow> MCFragment list" where
  "section_contents S = map (Frags S) (FragList S)"

text \<open>
  The loop that writes the rows, over the result map; \<open>int Bit = VictimInfo.Bit\<close> keeps the
  low 32 bits. It returns the rows written and what ended the loop early, if anything.
\<close>

fun output_rows :: "VictimInfo list list \<Rightarrow> ResultMap \<Rightarrow> layout_row list \<times> abort option" where
  "output_rows VIs [] = ([], None)"
| "output_rows VIs (T # rest) =
     (case VictimFrame (snd T) of
        None \<Rightarrow> output_rows VIs rest
      | Some Frame \<Rightarrow>
        case VictimPageOffset (snd T) of
          None \<Rightarrow> ([], Some Bad_optional_access)
        | Some PageOffset \<Rightarrow>
          case VictimFrameIdx (snd T) of
            None \<Rightarrow> ([], Some Bad_optional_access)
          | Some Idx \<Rightarrow>
              if \<not> (unat Frame < length VIs \<and> unat Idx < length (VIs ! unat Frame))
              then ([], Some Index_out_of_range)
              else
                let V = VIs ! unat Frame ! unat Idx;
                    row = \<lparr>RowVictimPageOffset = PageOffset, RowVictimAddr = VictimAddr V,
                           RowBit = sint (ucast (Bit V) :: 32 word), RowSign = Sign V,
                           RowAggrs = Aggrs V, RowAggrInit = AggrInit V\<rparr>
                in case output_rows VIs rest of (rows, e) \<Rightarrow> (row # rows, e))"

text \<open>
  The DBL part of \<open>layout\<close> in round 2, between the host's layout and the fixups: bundle
  formation, the checks of \<open>printSectionLayout\<close>, the assertion that the first bundle
  starts the section, bridge jumps, \<open>solveFF\<close> on an empty result map, the rewrite loop,
  the host's final offsets, and the two files. It returns what was written and, unless a
  step ended the run, the rewritten section, the result map and the statics.
\<close>

definition layout_round2 ::
  "assembler \<Rightarrow> solver_statics \<Rightarrow>
   written list \<times> (abort + (MCSection \<times> ResultMap \<times> solver_statics))" where
  "layout_round2 A statics =
     (case form_bundles (TextSec A) (FragTargetSpec A) of
        Inl e \<Rightarrow> ([], Inl e)
      | Inr Bundles \<Rightarrow>
        case printSectionLayout (Frags (TextSec A)) Bundles None (FragList (TextSec A)) of
          Some e \<Rightarrow> ([], Inl e)
        | None \<Rightarrow>
        if Bundles = [] then ([], Inl Index_out_of_range)
        else if \<not> [BundleBegin (hd Bundles)] = take 1 (FragList (TextSec A))
        then ([], Inl Assert_first_in_bundle)
        else
        case insert_bridge_jumps Bundles (TextSec A) of
          Inl e \<Rightarrow> ([], Inl e)
        | Inr S1 \<Rightarrow>
        case solveFF (asm_PageSize A) (asm_VictimInfos A) (asm_getBundleSize A) Bundles
               [] statics of
          Inl e \<Rightarrow> ([], Inl e)
        | Inr (ResultMap', statics') \<Rightarrow>
        case rewrite_section (asm_getBundleSize A) Bundles ResultMap' S1 of
          Inl e \<Rightarrow> ([], Inl e)
        | Inr S2 \<Rightarrow>
        case printSectionLayout (Frags S2) Bundles None (FragList S2) of
          Some e \<Rightarrow> ([], Inl e)
        | None \<Rightarrow>
        if HostAborts A Host_final_offsets then ([], Inl Host_abort)
        else
        case output_rows (asm_VictimInfos A) ResultMap' of
          (rows, Some e) \<Rightarrow> (Files_opened # map Row rows, Inl e)
        | (rows, None) \<Rightarrow>
            (Files_opened # map Row rows @ [Files_closed], Inr (S2, ResultMap', statics')))"

text \<open>
  \<open>Finish\<close>. In dbl mode the configuration is read first. Round 1 is the host's layout and
  fixups and the first \<open>writeObject\<close>, during which the targets are matched. Round 2, in dbl
  mode only, asserts that no section has a target left, resets the writer, lays out again
  with the DBL part, and writes the object a second time.
\<close>

definition Finish :: "assembler \<Rightarrow> solver_statics \<Rightarrow> written list \<times> abort option" where
  "Finish A statics =
     (if \<not> \<not> BundlingEnabled A then ([], Some Assert_bundling_disabled)
      else
      case (if Mode A = DBL
            then (if \<not> (TargetOffsetsPath A \<noteq> [] \<and> VictimAddressesPath A \<noteq> [] \<and>
                        CompilerOutputPath A \<noteq> [])
                  then Inl Assert_paths_given else readConfig A)
            else Inr A) of
        Inl e \<Rightarrow> ([], Some e)
      | Inr A1 \<Rightarrow>
        if HostAborts A (Host_layout 1) \<or> HostAborts A (Host_fixups 1) \<or>
           HostAborts A (Host_writeObject 1)
        then ([], Some Host_abort)
        else
        let A2 = writeSectionData (FragList (TextSec A1)) 0 A1;
            round1 = [Object (section_contents (TextSec A1))]
        in
        if \<not> Mode A = DBL then (round1, None)
        else if \<not> list_all (\<lambda>Pair. snd Pair = []) (TargetsToFindForSection A2)
        then (round1, Some Assert_targets_found)
        else if HostAborts A (Host_layout 2) then (round1 @ [Writer_reset], Some Host_abort)
        else
        case layout_round2 A2 statics of
          (written, Inl e) \<Rightarrow> (round1 @ [Writer_reset] @ written, Some e)
        | (written, Inr (S2, ResultMap', statics')) \<Rightarrow>
            if HostAborts A (Host_fixups 2) \<or> HostAborts A (Host_writeObject 2)
            then (round1 @ [Writer_reset] @ written, Some Host_abort)
            else (round1 @ [Writer_reset] @ written @ [Object (section_contents S2)], None))"

subsection \<open>The module pass \<open>instrumentModule\<close> (DBL.cpp)\<close>

text \<open>
  A module is the list of its functions; of a function the model keeps the name, the
  number of arguments and the basic blocks (none for a declaration). New functions are
  appended to the list, as \<open>Module::getOrInsertFunction\<close> does. \<open>F.setName("old_main")\<close>
  is taken literally: the model assumes that the module has no function of that name
  yet.
\<close>

datatype Instruction = CallInst string "nat list" | ReturnInst "int option"

record Function =
  FnName :: string
  FnArgs :: nat
  BasicBlocks :: "Instruction list list"

definition getOrInsertFunction :: "string \<Rightarrow> nat \<Rightarrow> Function list \<Rightarrow> Function list" where
  "getOrInsertFunction name args M =
     (if name \<in> FnName ` set M then M
      else M @ [\<lparr>FnName = name, FnArgs = args, BasicBlocks = []\<rparr>])"

definition add_block :: "string \<Rightarrow> Instruction list \<Rightarrow> Function list \<Rightarrow> Function list" where
  \<comment> \<open>\<open>BasicBlock::Create(Context, "", Fn)\<close> and the instructions put into it\<close>
  "add_block name BB M =
     map (\<lambda>F. if FnName F = name then F\<lparr>BasicBlocks := BasicBlocks F @ [BB]\<rparr> else F) M"

fun setName :: "string \<Rightarrow> string \<Rightarrow> Function list \<Rightarrow> Function list" where
  \<comment> \<open>renames the first function called \<open>old\<close>, the one the loop of the pass stops at\<close>
  "setName old new [] = []"
| "setName old new (F # rest) =
     (if FnName F = old then F\<lparr>FnName := new\<rparr> # rest else F # setName old new rest)"

definition createRHStub :: "string \<Rightarrow> Function list \<Rightarrow> Function list" where
  \<comment> \<open>"build an empty function with only a return instruction"\<close>
  "createRHStub name M = add_block name [ReturnInst None] M"

definition instrumentModule :: "DBLModeT \<Rightarrow> Function list \<Rightarrow> Function list" where
  "instrumentModule DBLMode M =
     (if DBLMode = Baseline then M
      else case find (\<lambda>F. FnName F = ''main'') M of
             None \<Rightarrow> M
           | Some F \<Rightarrow>
               let M1 = setName ''main'' ''old_main'' M;
                   M2 = getOrInsertFunction ''main'' (FnArgs F) M1;
                   M3 = getOrInsertFunction ''do_the_thing'' 0 M2;
                   M4 = (if DBLMode = Offsets then createRHStub ''do_the_thing'' M3 else M3)
               in add_block ''main''
                    [CallInst ''do_the_thing'' [], CallInst ''old_main'' [0..<FnArgs F],
                     ReturnInst (Some 0)] M4)"

text \<open>Test data: a module with \<open>main(argc, argv)\<close> and one more function.\<close>

definition test_module :: "Function list" where
  "test_module = [\<lparr>FnName = ''fn1'', FnArgs = 0, BasicBlocks = [[ReturnInst None]]\<rparr>,
                  \<lparr>FnName = ''main'', FnArgs = 2, BasicBlocks = [[ReturnInst (Some 0)]]\<rparr>]"

text \<open>
  The fills as the specification states them, to compare the loop with: "compute
  \<open>fill = section_offset - last_end\<close>", where \<open>last_end\<close> is where the bundle placed before
  ends (its section offset plus its size), and \<open>0\<close> for the first.
\<close>

fun expected_fills :: "(Bundle \<Rightarrow> u64) \<Rightarrow> Bundle list \<Rightarrow> u64 \<Rightarrow> ResultMap \<Rightarrow> int list" where
  "expected_fills size_of Bs last_end [] = []"
| "expected_fills size_of Bs last_end (Pr # rest) =
     sint (fst Pr - last_end) #
     expected_fills size_of Bs (fst Pr + size_of (Bs ! ResBundleIdx (snd Pr))) rest"

text \<open>
  The fragment list after the fragments at positions \<open>i\<close> up to \<open>j\<close> (exclusive) are taken
  out and put back before position \<open>p\<close> of what remains: the move of a bundle in one round
  of the rewrite loop, named for the proofs.
\<close>

definition moved :: "nat list \<Rightarrow> nat \<Rightarrow> nat \<Rightarrow> nat \<Rightarrow> nat list" where
  "moved fl i j p =
     take p (take i fl @ drop j fl) @ take (j - i) (drop i fl) @ drop p (take i fl @ drop j fl)"

text \<open>
  Test data: an assembler in dbl mode. The section has two fragments of \<open>0x200\<close> and
  \<open>0x10\<close> bytes; the configuration names a fixed target (bit 3, sign \<open>+\<close>) at offset
  \<open>0x120\<close> and an ignored offset \<open>0x200\<close>, in that order reversed; there is one victim, at
  \<open>0x4140\<close>. A bundle has the size of its fragment, 5 bytes more for the first, which gets
  a jump.
\<close>

definition dbl_assembler :: assembler where
  "dbl_assembler =
     \<lparr>Mode = DBL, BundlingEnabled = False, TargetOffsetsPath = ''t.toml'',
      VictimAddressesPath = ''v.txt'', CompilerOutputPath = ''out'',
      TargetOffsetsFile = Some [(''.dbl_text'', [Entry_none 0x200, Entry_fixed 0x120 3 True])],
      VictimAddressesFile =
        Some [(victim 0x4140 3 True)\<lparr>Aggrs := [0x3000, 0x5000], AggrInit := 0xFF\<rparr>],
      asm_PageSize = 4096, PageAddrMask = 0xFFFFFFFFFFFFF000,
      asm_VictimInfos = [], TargetsToFindForSection = [],
      TextSecName = ''.dbl_text'',
      TextSec = \<lparr>FragList = [0, 1],
                 Frags = (\<lambda>f. if f = 0 then DBLFragment 0x200 [] else DBLFragment 0x10 []),
                 Symbols = [], NextTemp = 0, NextFrag = 2\<rparr>,
      FragTargetSpec = Map.empty,
      computeFragmentSize = (\<lambda>f. if f = 0 then 0x200 else 0x10),
      asm_getBundleSize = (\<lambda>B. if BundleBegin B = 0 then 0x205 else 0x10),
      HostAborts = (\<lambda>step. False)\<rparr>"


text \<open>What the run on \<open>dbl_assembler\<close> goes through: the bundles and the result map.\<close>

definition dbl_bundles :: "Bundle list" where
  "dbl_bundles =
     [\<lparr>Spec = \<lparr>TargetOffsetInOutput = 0x120, Kind = TargetFixed 3 True,
               TargetOffsetInFragment = 0x120\<rparr>, BundleBegin = 0, BundleEnd = 0\<rparr>,
      \<lparr>Spec = \<lparr>TargetOffsetInOutput = 0x200, Kind = TargetNone,
               TargetOffsetInFragment = 0\<rparr>, BundleBegin = 1, BundleEnd = 1\<rparr>]"

definition dbl_results :: ResultMap where
  "dbl_results =
     [(0, new_Result 1),
      (0x20, \<lparr>ResBundleIdx = 0, VictimFrame = Some 0, VictimFrameIdx = Some 0,
              VictimPageOffset = Some 0x140\<rparr>)]"


section \<open>Verification\<close>

subsection \<open>Word arithmetic\<close>

lemma unat_add_exact: "unat (a::u64) + unat b < 2 ^ 64 \<Longrightarrow> unat (a + b) = unat a + unat b"
  using unat_add_lem [of a b] by simp

lemma unat_bound64: "unat (a::u64) < 2 ^ 64"
  using unsigned_less [of a, where 'a=nat] by simp

subsection \<open>Free list: rollback\<close>

lemma rollback_whole:
  assumes "Itr < length xs"
  shows "rollback (list_erase xs Itr) \<lparr>Start = Itr, End = Itr, Value = xs ! Itr\<rparr> = xs"
  using assms
  by (simp add: rollback_def list_erase_def list_insert_def list_erase_range_def
      min_def Cons_nth_drop_Suc)

lemma rollback_in_place:
  assumes "Itr < length xs"
  shows "rollback (xs[Itr := v]) \<lparr>Start = Itr, End = Suc Itr, Value = xs ! Itr\<rparr> = xs"
  using assms
  by (simp add: rollback_def list_insert_def list_erase_range_def
      min_def Cons_nth_drop_Suc)

lemma rollback_middle:
  assumes "Itr < length xs"
  shows "rollback ((list_insert xs Itr a)[Suc Itr := b])
           \<lparr>Start = Itr, End = Suc (Suc Itr), Value = xs ! Itr\<rparr> = xs"
proof -
  have upd: "(list_insert xs Itr a)[Suc Itr := b] = take Itr xs @ a # b # drop (Suc Itr) xs"
    using assms
    by (simp add: list_insert_def list_update_append min_def
        Cons_nth_drop_Suc [symmetric])
  show ?thesis
    using assms
    by (simp add: upd rollback_def list_insert_def list_erase_range_def min_def
        Cons_nth_drop_Suc)
qed

lemma removeFromFreelist_rollback_restores:
  assumes "removeFromFreelist xs Itr Offset Size = Inr (xs', rbi)"
  shows "rollback xs' rbi = xs"
proof -
  have lt: "Itr < length xs"
    using assms by (auto simp: removeFromFreelist_def split: if_splits)
  obtain f s where fs: "xs ! Itr = (f, s)" by (cases "xs ! Itr")
  from assms lt fs show ?thesis
    using rollback_whole [OF lt] rollback_in_place [OF lt] rollback_middle [OF lt]
    by (auto simp: removeFromFreelist_def Let_def split: if_splits)
qed

text \<open>
  C6. Removing an in-range piece from an interval of the free list and then applying the
  rollback that \<open>removeFromFreelist\<close> returns (as \<open>assignSpotAtDist\<close> does: insert the
  saved value before \<open>Start\<close>, erase from \<open>Start\<close> up to \<open>End\<close>) gives back exactly the
  list from before the removal. The interval \<open>[first, first + second)\<close> is an interval
  of section offsets, so it does not wrap around; the removal then returns in each of
  its four cases.
\<close>

theorem removeFromFreelist_then_rollback:
  assumes "Itr < length xs" and "xs ! Itr = (first, second)"
    and "unat Offset + unat Size \<le> unat second"
    and "unat first + unat second < 2 ^ 64"
  shows "\<exists>xs' rbi. removeFromFreelist xs Itr Offset Size = Inr (xs', rbi) \<and>
           rollback xs' rbi = xs"
proof -
  have no_abort: "second - Size = Offset" if "Offset + Size = first + second"
  proof -
    have l: "unat (Offset + Size) = unat Offset + unat Size"
      using assms(3) unat_bound64 [of second] by (intro unat_add_exact) simp
    have r: "unat (first + second) = unat first + unat second"
      using assms(4) by (intro unat_add_exact) simp
    from that l r have "unat Offset + unat Size = unat first + unat second" by simp
    with assms(3) have "unat second = unat Offset + unat Size" by simp
    then have "second = Offset + Size"
      using l by (simp add: word_unat_eq_iff)
    then show ?thesis by simp
  qed
  obtain res where res: "removeFromFreelist xs Itr Offset Size = res" by simp
  have "\<exists>xs' rbi. res = Inr (xs', rbi)"
    using res assms(1,2) no_abort
    by (auto simp: removeFromFreelist_def Let_def split: if_splits)
  then obtain xs' rbi where "removeFromFreelist xs Itr Offset Size = Inr (xs', rbi)"
    using res by auto
  then show ?thesis
    using removeFromFreelist_rollback_restores by blast
qed

theorem removeFromFreelist_then_rollback_witness:
  "(\<exists>xs' rbi. removeFromFreelist [(0, 64), (100, 50)] 1 0 50 = Inr (xs', rbi) \<and>
       rollback xs' rbi = [(0, 64), (100, 50)]) \<and>
   (\<exists>xs' rbi. removeFromFreelist [(0, 64), (100, 50)] 1 0 20 = Inr (xs', rbi) \<and>
       rollback xs' rbi = [(0, 64), (100, 50)]) \<and>
   (\<exists>xs' rbi. removeFromFreelist [(0, 64), (100, 50)] 0 16 48 = Inr (xs', rbi) \<and>
       rollback xs' rbi = [(0, 64), (100, 50)]) \<and>
   (\<exists>xs' rbi. removeFromFreelist [(0, 64), (100, 50)] 1 10 20 = Inr (xs', rbi) \<and>
       rollback xs' rbi = [(0, 64), (100, 50)])"
  using removeFromFreelist_then_rollback [of 1 "[(0, 64), (100, 50)]" 100 50 0 50]
    removeFromFreelist_then_rollback [of 1 "[(0, 64), (100, 50)]" 100 50 0 20]
    removeFromFreelist_then_rollback [of 0 "[(0, 64), (100, 50)]" 0 64 16 48]
    removeFromFreelist_then_rollback [of 1 "[(0, 64), (100, 50)]" 100 50 10 20]
  by simp

lemma splitFreelistAt_result:
  assumes "Itr < length FreeList" and "FreeList ! Itr = (first, second)"
  shows "splitFreelistAt FreeList Itr Offset =
           Inr (take Itr FreeList @ (first, Offset) # (first + Offset, second - Offset) #
                  drop (Suc Itr) FreeList, Suc Itr)"
proof -
  have d: "drop Itr FreeList = (first, second) # drop (Suc Itr) FreeList"
    using assms by (simp add: Cons_nth_drop_Suc [symmetric])
  have l: "length (take Itr FreeList) = Itr"
    using assms(1) by simp
  have "(take Itr FreeList @ (first, Offset) # drop Itr FreeList)
          [Suc Itr := (first + Offset, second - Offset)] =
        take Itr FreeList @ (first, Offset) # (first + Offset, second - Offset) #
          drop (Suc Itr) FreeList"
    unfolding d using assms(1) by (simp add: list_update_append)
  then show ?thesis
    using assms by (simp add: splitFreelistAt_def list_insert_def)
qed

lemma free_space_split:
  assumes "Itr < length FreeList" and "FreeList ! Itr = (first, second)" and "Offset < second"
  shows "free_space (take Itr FreeList @ (first, Offset) # (first + Offset, second - Offset) #
                       drop (Suc Itr) FreeList) = free_space FreeList"
proof -
  have u: "unat Offset + unat (second - Offset) = unat second"
    using assms(3) unat_sub [of Offset second] by (simp add: word_less_nat_alt word_le_nat_alt)
  have "FreeList = take Itr FreeList @ (first, second) # drop (Suc Itr) FreeList"
    using id_take_nth_drop [OF assms(1)] assms(2) by simp
  then have "free_space FreeList =
      free_space (take Itr FreeList @ (first, second) # drop (Suc Itr) FreeList)"
    by (rule arg_cong)
  also have "\<dots> =
      free_space (take Itr FreeList) + unat second + free_space (drop (Suc Itr) FreeList)"
    by (simp add: free_space_def)
  finally show ?thesis
    using u by (simp add: free_space_def)
qed

text \<open>
  C5. For an iterator on an interval \<open>(first, second)\<close> of the list and an offset with
  \<open>0 < Offset < second\<close>, \<open>splitFreelistAt\<close> returns with the two intervals
  \<open>(first, Offset)\<close> and \<open>(first + Offset, second - Offset)\<close> standing where the interval
  stood, everything before and after it as it was, the iterator on the second piece, and
  the same total of free bytes.
\<close>

theorem splitFreelistAt_two_pieces:
  assumes "Itr < length FreeList" and "FreeList ! Itr = (first, second)"
    and "0 < Offset" and "Offset < second"
  shows "\<exists>FreeList' Itr'.
           splitFreelistAt FreeList Itr Offset = Inr (FreeList', Itr') \<and>
           FreeList' = take Itr FreeList @ [(first, Offset), (first + Offset, second - Offset)] @
                         drop (Suc Itr) FreeList \<and>
           Itr' = Suc Itr \<and> Itr' < length FreeList' \<and>
           FreeList' ! Itr' = (first + Offset, second - Offset) \<and>
           FreeList' ! (Itr' - 1) = (first, Offset) \<and>
           unat first + unat Offset + unat (second - Offset) = unat first + unat second \<and>
           free_space FreeList' = free_space FreeList"
proof -
  have l: "length (take Itr FreeList) = Itr"
    using assms(1) by simp
  have u: "unat Offset + unat (second - Offset) = unat second"
    using assms(4) unat_sub [of Offset second] by (simp add: word_less_nat_alt word_le_nat_alt)
  show ?thesis
    using splitFreelistAt_result [OF assms(1,2), of Offset] free_space_split [OF assms(1,2,4)] u
      assms(1)
    by (simp add: nth_append)
qed

theorem splitFreelistAt_two_pieces_witness:
  "splitFreelistAt [(0, 100)] 0 16 = Inr ([(0, 16), (16, 84)], 1) \<and>
   free_space [(0, 16), (16, 84)] = free_space [(0, 100)] \<and>
   splitFreelistAt [(0, 64), (100, 50), (200, 10)] 1 20 =
     Inr ([(0, 64), (100, 20), (120, 30), (200, 10)], 2) \<and>
   free_space [(0, 64), (100, 20), (120, 30), (200, 10)] =
     free_space [(0, 64), (100, 50), (200, 10)]"
proof -
  have "\<exists>FreeList' Itr'.
          splitFreelistAt [(0, 100)] 0 16 = Inr (FreeList', Itr') \<and>
          FreeList' = take 0 [(0, 100)] @ [(0, 16), (0 + 16, 100 - 16)] @ drop (Suc 0) [(0, 100)] \<and>
          Itr' = Suc 0 \<and> Itr' < length FreeList' \<and>
          FreeList' ! Itr' = (0 + 16, 100 - 16) \<and>
          FreeList' ! (Itr' - 1) = (0, 16) \<and>
          unat (0 :: u64) + unat (16 :: u64) + unat (100 - 16 :: u64) =
            unat (0 :: u64) + unat (100 :: u64) \<and>
          free_space FreeList' = free_space [(0, 100)]"
    by (rule splitFreelistAt_two_pieces) simp_all
  then have a: "splitFreelistAt [(0, 100)] 0 16 = Inr ([(0, 16), (16, 84)], 1) \<and>
     free_space [(0, 16), (16, 84)] = free_space [(0, 100)]"
    by auto
  have "\<exists>FreeList' Itr'.
          splitFreelistAt [(0, 64), (100, 50), (200, 10)] 1 20 = Inr (FreeList', Itr') \<and>
          FreeList' = take 1 [(0, 64), (100, 50), (200, 10)] @ [(100, 20), (100 + 20, 50 - 20)] @
                        drop (Suc 1) [(0, 64), (100, 50), (200, 10)] \<and>
          Itr' = Suc 1 \<and> Itr' < length FreeList' \<and>
          FreeList' ! Itr' = (100 + 20, 50 - 20) \<and>
          FreeList' ! (Itr' - 1) = (100, 20) \<and>
          unat (100 :: u64) + unat (20 :: u64) + unat (50 - 20 :: u64) =
            unat (100 :: u64) + unat (50 :: u64) \<and>
          free_space FreeList' = free_space [(0, 64), (100, 50), (200, 10)]"
    by (rule splitFreelistAt_two_pieces) simp_all
  then have b: "splitFreelistAt [(0, 64), (100, 50), (200, 10)] 1 20 =
       Inr ([(0, 64), (100, 20), (120, 30), (200, 10)], 2) \<and>
     free_space [(0, 64), (100, 20), (120, 30), (200, 10)] =
       free_space [(0, 64), (100, 50), (200, 10)]"
    by auto
  show ?thesis using a b by blast
qed

subsection \<open>\<open>findVictim\<close>: best fit\<close>

lemma int_lt_2p63: "n < 2 ^ 63 \<Longrightarrow> int n < 9223372036854775808"
proof -
  assume "n < 2 ^ 63"
  then have "int n < int (2 ^ 63)" by (simp only: of_nat_less_iff)
  then show ?thesis by simp
qed

lemma sint_small:
  assumes h: "unat (a::u64) < 2 ^ 63"
  shows "sint a = int (unat a)"
proof -
  have u: "uint a < 9223372036854775808" using int_lt_2p63 [OF h] by simp
  have "sint a = signed_take_bit 63 (uint a)" by (simp add: sint_uint)
  also have "\<dots> = uint a"
  proof -
    have "- 9223372036854775808 \<le> uint a \<and> uint a < 9223372036854775808"
      using u uint_ge_0 [of a] by linarith
    then show ?thesis by (simp add: signed_take_bit_int_eq_self_iff)
  qed
  finally show ?thesis by simp
qed

lemma sint_diff_exact:
  assumes "(a::u64) < P" "b < P" "unat P < 2 ^ 63"
  shows "sint (a - b) = int (unat a) - int (unat b)"
proof -
  have a: "unat a < 2 ^ 63" and b: "unat b < 2 ^ 63"
    using assms by (simp_all add: word_less_nat_alt)
  have ab: "uint a < 9223372036854775808" "uint b < 9223372036854775808"
    using int_lt_2p63 [OF a] int_lt_2p63 [OF b] by simp_all
  have "sint (a - b) = signed_take_bit 63 (sint a - sint b)"
    by (simp add: sint_word_diff)
  also have "\<dots> = sint a - sint b"
  proof -
    have "- 9223372036854775808 \<le> uint a - uint b \<and> uint a - uint b < 9223372036854775808"
      using ab uint_ge_0 [of a] uint_ge_0 [of b] by linarith
    then show ?thesis
      by (simp add: signed_take_bit_int_eq_self_iff sint_small [OF a] sint_small [OF b])
  qed
  finally show ?thesis by (simp add: sint_small [OF a] sint_small [OF b])
qed

lemma findVictim_inner_fold:
  "findVictim_inner P T U B S I J vs st = fold (scan_step P T U B S) (scan_row I J vs) st"
  by (induction vs arbitrary: J st) (simp_all add: scan_step_def)

lemma findVictim_outer_fold:
  "findVictim_outer P T U B S I vis st = fold (scan_step P T U B S) (scan_all I vis) st"
  by (induction vis arbitrary: I st) (simp_all add: findVictim_inner_fold)

lemma scan_step_eq:
  assumes "sint (VictimAddr v mod P - T) = head_padding P T v"
  shows "scan_step P T U B S (I, J, v) (Best, Ret) =
           (if acceptable_victim P T U B S v \<and> head_padding P T v < sint Best
            then (VictimAddr v mod P - T, (word_of_nat I, word_of_nat J)) else (Best, Ret))"
  using assms by (auto simp: scan_step_def victim_step_def acceptable_victim_def Let_def)

lemma fold_best:
  assumes "sorted_wrt scan_before cs"
    and "\<forall>c\<in>set cs. sint (VictimAddr (snd (snd c)) mod P - T) = head_padding P T (snd (snd c))"
    and "fold (scan_step P T U B S) cs (Best, Ret) = (Best', Ret')"
  shows "((\<forall>c\<in>set cs. acceptable_victim P T U B S (snd (snd c)) \<longrightarrow>
              \<not> head_padding P T (snd (snd c)) < sint Best) \<and> (Best', Ret') = (Best, Ret))
       \<or> (\<exists>c\<in>set cs. acceptable_victim P T U B S (snd (snd c)) \<and>
              head_padding P T (snd (snd c)) < sint Best \<and>
              sint Best' = head_padding P T (snd (snd c)) \<and>
              Ret' = (word_of_nat (fst c), word_of_nat (fst (snd c))) \<and>
              (\<forall>c'\<in>set cs. acceptable_victim P T U B S (snd (snd c')) \<longrightarrow>
                 head_padding P T (snd (snd c)) \<le> head_padding P T (snd (snd c')) \<and>
                 (head_padding P T (snd (snd c')) = head_padding P T (snd (snd c)) \<longrightarrow>
                    c' = c \<or> scan_before c c')))"
  using assms
proof (induction cs arbitrary: Best Ret)
  case Nil
  then show ?case by simp
next
  case (Cons x xs)
  obtain I J v where x: "x = (I, J, v)" by (cases x)
  have ex: "sint (VictimAddr v mod P - T) = head_padding P T v"
    using Cons.prems(2) x by simp
  have sorted_xs: "sorted_wrt scan_before xs" and before: "\<forall>c\<in>set xs. scan_before x c"
    using Cons.prems(1) by simp_all
  have exact_xs: "\<forall>c\<in>set xs. sint (VictimAddr (snd (snd c)) mod P - T) = head_padding P T (snd (snd c))"
    using Cons.prems(2) by simp
  show ?case
  proof (cases "acceptable_victim P T U B S v \<and> head_padding P T v < sint Best")
    case True
    then have f: "fold (scan_step P T U B S) xs (VictimAddr v mod P - T, (word_of_nat I, word_of_nat J)) = (Best', Ret')"
      using Cons.prems(3) x scan_step_eq [OF ex] by simp
    from Cons.IH [OF sorted_xs exact_xs f] show ?thesis
    proof
      assume a: "(\<forall>c\<in>set xs. acceptable_victim P T U B S (snd (snd c)) \<longrightarrow>
              \<not> head_padding P T (snd (snd c)) < sint (VictimAddr v mod P - T)) \<and>
              (Best', Ret') = (VictimAddr v mod P - T, (word_of_nat I, word_of_nat J))"
      have "acceptable_victim P T U B S (snd (snd x)) \<and>
              head_padding P T (snd (snd x)) < sint Best \<and>
              sint Best' = head_padding P T (snd (snd x)) \<and>
              Ret' = (word_of_nat (fst x), word_of_nat (fst (snd x))) \<and>
              (\<forall>c'\<in>set (x # xs). acceptable_victim P T U B S (snd (snd c')) \<longrightarrow>
                 head_padding P T (snd (snd x)) \<le> head_padding P T (snd (snd c')) \<and>
                 (head_padding P T (snd (snd c')) = head_padding P T (snd (snd x)) \<longrightarrow>
                    c' = x \<or> scan_before x c'))"
        using a True x ex before by auto
      then show ?thesis by (intro disjI2 bexI [of _ x]) simp_all
    next
      assume "\<exists>c\<in>set xs. acceptable_victim P T U B S (snd (snd c)) \<and>
              head_padding P T (snd (snd c)) < sint (VictimAddr v mod P - T) \<and>
              sint Best' = head_padding P T (snd (snd c)) \<and>
              Ret' = (word_of_nat (fst c), word_of_nat (fst (snd c))) \<and>
              (\<forall>c'\<in>set xs. acceptable_victim P T U B S (snd (snd c')) \<longrightarrow>
                 head_padding P T (snd (snd c)) \<le> head_padding P T (snd (snd c')) \<and>
                 (head_padding P T (snd (snd c')) = head_padding P T (snd (snd c)) \<longrightarrow>
                    c' = c \<or> scan_before c c'))"
      then obtain c where c: "c \<in> set xs" "acceptable_victim P T U B S (snd (snd c))"
          "head_padding P T (snd (snd c)) < sint (VictimAddr v mod P - T)"
          "sint Best' = head_padding P T (snd (snd c))"
          "Ret' = (word_of_nat (fst c), word_of_nat (fst (snd c)))"
          "\<forall>c'\<in>set xs. acceptable_victim P T U B S (snd (snd c')) \<longrightarrow>
                 head_padding P T (snd (snd c)) \<le> head_padding P T (snd (snd c')) \<and>
                 (head_padding P T (snd (snd c')) = head_padding P T (snd (snd c)) \<longrightarrow>
                    c' = c \<or> scan_before c c')"
        by blast
      have "head_padding P T (snd (snd c)) < head_padding P T v" using c(3) ex by simp
      then have "acceptable_victim P T U B S (snd (snd c)) \<and>
              head_padding P T (snd (snd c)) < sint Best \<and>
              sint Best' = head_padding P T (snd (snd c)) \<and>
              Ret' = (word_of_nat (fst c), word_of_nat (fst (snd c))) \<and>
              (\<forall>c'\<in>set (x # xs). acceptable_victim P T U B S (snd (snd c')) \<longrightarrow>
                 head_padding P T (snd (snd c)) \<le> head_padding P T (snd (snd c')) \<and>
                 (head_padding P T (snd (snd c')) = head_padding P T (snd (snd c)) \<longrightarrow>
                    c' = c \<or> scan_before c c'))"
        using c True x by auto
      then show ?thesis using c(1) by (intro disjI2 bexI [of _ c]) simp_all
    qed
  next
    case False
    then have "scan_step P T U B S x (Best, Ret) = (Best, Ret)"
      using x scan_step_eq [OF ex, of U B S I J Best Ret] by auto
    then have f: "fold (scan_step P T U B S) xs (Best, Ret) = (Best', Ret')"
      using Cons.prems(3) by simp
    from Cons.IH [OF sorted_xs exact_xs f] show ?thesis
    proof
      assume "(\<forall>c\<in>set xs. acceptable_victim P T U B S (snd (snd c)) \<longrightarrow>
              \<not> head_padding P T (snd (snd c)) < sint Best) \<and> (Best', Ret') = (Best, Ret)"
      then show ?thesis using False x by auto
    next
      assume "\<exists>c\<in>set xs. acceptable_victim P T U B S (snd (snd c)) \<and>
              head_padding P T (snd (snd c)) < sint Best \<and>
              sint Best' = head_padding P T (snd (snd c)) \<and>
              Ret' = (word_of_nat (fst c), word_of_nat (fst (snd c))) \<and>
              (\<forall>c'\<in>set xs. acceptable_victim P T U B S (snd (snd c')) \<longrightarrow>
                 head_padding P T (snd (snd c)) \<le> head_padding P T (snd (snd c')) \<and>
                 (head_padding P T (snd (snd c')) = head_padding P T (snd (snd c)) \<longrightarrow>
                    c' = c \<or> scan_before c c'))"
      then obtain c where c: "c \<in> set xs" "acceptable_victim P T U B S (snd (snd c))"
          "head_padding P T (snd (snd c)) < sint Best"
          "sint Best' = head_padding P T (snd (snd c))"
          "Ret' = (word_of_nat (fst c), word_of_nat (fst (snd c)))"
          "\<forall>c'\<in>set xs. acceptable_victim P T U B S (snd (snd c')) \<longrightarrow>
                 head_padding P T (snd (snd c)) \<le> head_padding P T (snd (snd c')) \<and>
                 (head_padding P T (snd (snd c')) = head_padding P T (snd (snd c)) \<longrightarrow>
                    c' = c \<or> scan_before c c')"
        by blast
      have "acceptable_victim P T U B S (snd (snd c)) \<and>
              head_padding P T (snd (snd c)) < sint Best \<and>
              sint Best' = head_padding P T (snd (snd c)) \<and>
              Ret' = (word_of_nat (fst c), word_of_nat (fst (snd c))) \<and>
              (\<forall>c'\<in>set (x # xs). acceptable_victim P T U B S (snd (snd c')) \<longrightarrow>
                 head_padding P T (snd (snd c)) \<le> head_padding P T (snd (snd c')) \<and>
                 (head_padding P T (snd (snd c')) = head_padding P T (snd (snd c)) \<longrightarrow>
                    c' = c \<or> scan_before c c'))"
        using c False x by auto
      then show ?thesis using c(1) by (intro disjI2 bexI [of _ c]) simp_all
    qed
  qed
qed

lemma set_scan_row: "set (scan_row I J vs) = {(I, J + k, vs ! k) | k. k < length vs}"
proof (induction vs arbitrary: J)
  case Nil
  then show ?case by simp
next
  case (Cons v vs)
  have "{(I, J + k, (v # vs) ! k) | k. k < Suc (length vs)} =
        insert (I, J, v) {(I, Suc J + k, vs ! k) | k. k < length vs}"
  proof (intro set_eqI iffI)
    fix c assume "c \<in> {(I, J + k, (v # vs) ! k) | k. k < Suc (length vs)}"
    then obtain k where k: "c = (I, J + k, (v # vs) ! k)" "k < Suc (length vs)" by blast
    show "c \<in> insert (I, J, v) {(I, Suc J + k, vs ! k) | k. k < length vs}"
    proof (cases k)
      case 0
      then show ?thesis using k by simp
    next
      case (Suc k')
      then show ?thesis using k by auto
    qed
  next
    fix c assume "c \<in> insert (I, J, v) {(I, Suc J + k, vs ! k) | k. k < length vs}"
    then consider "c = (I, J, v)" | k where "c = (I, Suc J + k, vs ! k)" "k < length vs" by blast
    then show "c \<in> {(I, J + k, (v # vs) ! k) | k. k < Suc (length vs)}"
    proof cases
      case 1
      then have "c = (I, J + 0, (v # vs) ! 0) \<and> 0 < Suc (length vs)" by simp
      then show ?thesis by blast
    next
      case 2
      then have "c = (I, J + Suc k, (v # vs) ! Suc k) \<and> Suc k < Suc (length vs)" by simp
      then show ?thesis by blast
    qed
  qed
  with Cons.IH [of "Suc J"] show ?case by simp
qed

lemma set_scan_all:
  "set (scan_all I0 vis) = {(I0 + i, j, vis ! i ! j) | i j. i < length vis \<and> j < length (vis ! i)}"
proof (induction vis arbitrary: I0)
  case Nil
  then show ?case by simp
next
  case (Cons vi vis)
  have "{(I0 + i, j, (vi # vis) ! i ! j) | i j. i < Suc (length vis) \<and> j < length ((vi # vis) ! i)} =
        {(I0, 0 + k, vi ! k) | k. k < length vi} \<union>
        {(Suc I0 + i, j, vis ! i ! j) | i j. i < length vis \<and> j < length (vis ! i)}"
  proof (intro set_eqI iffI)
    fix c assume "c \<in> {(I0 + i, j, (vi # vis) ! i ! j) | i j.
                     i < Suc (length vis) \<and> j < length ((vi # vis) ! i)}"
    then obtain i j where ij: "c = (I0 + i, j, (vi # vis) ! i ! j)" "i < Suc (length vis)"
        "j < length ((vi # vis) ! i)" by blast
    show "c \<in> {(I0, 0 + k, vi ! k) | k. k < length vi} \<union>
        {(Suc I0 + i, j, vis ! i ! j) | i j. i < length vis \<and> j < length (vis ! i)}"
    proof (cases i)
      case 0
      then show ?thesis using ij by simp
    next
      case (Suc i')
      then have "c = (Suc I0 + i', j, vis ! i' ! j) \<and> i' < length vis \<and> j < length (vis ! i')"
        using ij by simp
      then show ?thesis by blast
    qed
  next
    fix c assume "c \<in> {(I0, 0 + k, vi ! k) | k. k < length vi} \<union>
        {(Suc I0 + i, j, vis ! i ! j) | i j. i < length vis \<and> j < length (vis ! i)}"
    then consider k where "c = (I0, k, vi ! k)" "k < length vi"
      | i j where "c = (Suc I0 + i, j, vis ! i ! j)" "i < length vis" "j < length (vis ! i)"
      by auto
    then show "c \<in> {(I0 + i, j, (vi # vis) ! i ! j) | i j.
                     i < Suc (length vis) \<and> j < length ((vi # vis) ! i)}"
    proof cases
      case 1
      then have "c = (I0 + 0, k, (vi # vis) ! 0 ! k) \<and> 0 < Suc (length vis) \<and>
                 k < length ((vi # vis) ! 0)" by simp
      then show ?thesis by blast
    next
      case 2
      then have "c = (I0 + Suc i, j, (vi # vis) ! Suc i ! j) \<and> Suc i < Suc (length vis) \<and>
                 j < length ((vi # vis) ! Suc i)" by simp
      then show ?thesis by blast
    qed
  qed
  with Cons.IH [of "Suc I0"] show ?case by (simp add: set_scan_row)
qed

lemma sorted_scan_row: "sorted_wrt scan_before (scan_row I J vs)"
  by (induction vs arbitrary: J) (auto simp: set_scan_row scan_before_def)

lemma sorted_scan_all: "sorted_wrt scan_before (scan_all I vis)"
  by (induction vis arbitrary: I)
    (auto simp: sorted_wrt_append sorted_scan_row set_scan_row set_scan_all scan_before_def)

lemma unat_word_of_nat_small: "n < 2 ^ 32 \<Longrightarrow> unat (word_of_nat n :: u64) = n"
proof -
  assume "n < 2 ^ 32"
  then have "n < (2::nat) ^ 64"
    by (rule less_trans) simp
  then show ?thesis by (simp add: unat_of_nat)
qed

lemma word_of_nat_small_neq_max: "n < 2 ^ 32 \<Longrightarrow> (word_of_nat n :: u64) \<noteq> UINT64_MAX"
proof
  assume n: "n < 2 ^ 32" and "(word_of_nat n :: u64) = UINT64_MAX"
  then have "unat (word_of_nat n :: u64) = unat UINT64_MAX" by simp
  then have "n = 18446744073709551615"
    using unat_word_of_nat_small [OF n] by (simp add: UINT64_MAX_def)
  with n show False by simp
qed

lemma head_padding_exact:
  assumes "T < P" "unat P < 2 ^ 63"
  shows "sint (VictimAddr v mod P - T) = head_padding P T v"
proof -
  have "0 < P" using assms(1) by (cases "P = 0") (simp_all add: word_greater_zero_iff)
  then have "VictimAddr v mod P < P" by (simp add: word_mod_less_divisor)
  then show ?thesis
    using sint_diff_exact [OF _ assms] by (simp add: head_padding_def)
qed

lemma head_padding_below_INT64_MAX:
  assumes "T < P" "unat P < 2 ^ 63"
  shows "head_padding P T v < sint INT64_MAX"
proof -
  have "0 < P" using assms(1) by (cases "P = 0") (simp_all add: word_greater_zero_iff)
  then have "VictimAddr v mod P < P" by (simp add: word_mod_less_divisor)
  then have "unat (VictimAddr v mod P) < unat P" by (simp add: word_less_nat_alt)
  then have "unat (VictimAddr v mod P) < 2 ^ 63 - 1" using assms(2) by simp
  then have "int (unat (VictimAddr v mod P)) < int (2 ^ 63 - 1)" by (simp only: of_nat_less_iff)
  then have "int (unat (VictimAddr v mod P)) < 9223372036854775807" by simp
  moreover have "0 \<le> int (unat T)" by simp
  ultimately have "int (unat (VictimAddr v mod P)) - int (unat T) < 9223372036854775807"
    by linarith
  then show ?thesis by (simp add: head_padding_def INT64_MAX_def)
qed

text \<open>
  C1. For a block with a target offset below the page size, \<open>findVictim\<close> either aborts
  on its assertion, exactly when no pair of indices is a candidate (frame unused, bit and
  sign as required, \<open>E > 0\<close>), or returns a candidate with the least \<open>E\<close>; among the
  candidates with that \<open>E\<close> it is the first in (outer, inner) scan order; and the returned
  set of used frames is the old one with the frame of the returned victim inserted.
  The page size (a member of the assembler declared outside the sources) is any value
  below \<open>2^63\<close>, and the victim vectors hold fewer than \<open>2^32\<close> entries.
\<close>

theorem findVictim_best_fit:
  assumes tvi: "TargetVictimInfo Block = Some TVI" and to: "TargetOffset TVI < PageSize"
    and ps: "unat PageSize < 2 ^ 63"
    and n: "length VictimInfos < 2 ^ 32" and m: "\<forall>vi\<in>set VictimInfos. length vi < 2 ^ 32"
  shows "case findVictim PageSize VictimInfos Used Block Bit' Sign' of
           Inl e \<Rightarrow> e = Assert_enough_victims \<and>
             (\<forall>I J. \<not> candidate PageSize VictimInfos (TargetOffset TVI) Used Bit' Sign' I J)
         | Inr (Ret, Used') \<Rightarrow>
             candidate PageSize VictimInfos (TargetOffset TVI) Used Bit' Sign'
               (unat (fst Ret)) (unat (snd Ret)) \<and>
             (\<forall>I J. candidate PageSize VictimInfos (TargetOffset TVI) Used Bit' Sign' I J \<longrightarrow>
                head_padding PageSize (TargetOffset TVI)
                    (VictimInfos ! unat (fst Ret) ! unat (snd Ret))
                  \<le> head_padding PageSize (TargetOffset TVI) (VictimInfos ! I ! J) \<and>
                (head_padding PageSize (TargetOffset TVI) (VictimInfos ! I ! J) =
                 head_padding PageSize (TargetOffset TVI)
                    (VictimInfos ! unat (fst Ret) ! unat (snd Ret)) \<longrightarrow>
                   unat (fst Ret) < I \<or> (unat (fst Ret) = I \<and> unat (snd Ret) \<le> J))) \<and>
             Used' = insert (VictimAddr (VictimInfos ! unat (fst Ret) ! unat (snd Ret))
                               div PageSize) Used"
proof -
  define T where "T = TargetOffset TVI"
  define cs where "cs = scan_all 0 VictimInfos"
  obtain Best' Ret' where run:
    "findVictim_outer PageSize T Used Bit' Sign' 0 VictimInfos
       (INT64_MAX, (UINT64_MAX, UINT64_MAX)) = (Best', Ret')"
    by (cases "findVictim_outer PageSize T Used Bit' Sign' 0 VictimInfos
       (INT64_MAX, (UINT64_MAX, UINT64_MAX))")
  have fv: "findVictim PageSize VictimInfos Used Block Bit' Sign' =
        (if fst Ret' = UINT64_MAX then Inl Assert_enough_victims
         else Inr (Ret', insert (VictimAddr (VictimInfos ! unat (fst Ret') ! unat (snd Ret'))
                                div PageSize) Used))"
    using tvi to run by (simp add: findVictim_def T_def)
  have mem: "c \<in> set cs \<longleftrightarrow> fst c < length VictimInfos \<and>
               fst (snd c) < length (VictimInfos ! fst c) \<and>
               snd (snd c) = VictimInfos ! fst c ! fst (snd c)" for c
    by (cases c) (auto simp: cs_def set_scan_all)
  have cand: "candidate PageSize VictimInfos T Used Bit' Sign' I J \<longleftrightarrow>
               (I, J, VictimInfos ! I ! J) \<in> set cs \<and>
               acceptable_victim PageSize T Used Bit' Sign' (VictimInfos ! I ! J)" for I J
    by (auto simp: candidate_def mem)
  have exact: "\<forall>c\<in>set cs. sint (VictimAddr (snd (snd c)) mod PageSize - T) =
                 head_padding PageSize T (snd (snd c))"
    using head_padding_exact [OF _ ps] to by (simp add: T_def)
  have fold: "fold (scan_step PageSize T Used Bit' Sign') cs
                (INT64_MAX, (UINT64_MAX, UINT64_MAX)) = (Best', Ret')"
    using run by (simp add: findVictim_outer_fold cs_def)
  have below: "head_padding PageSize T v < sint INT64_MAX" for v
    using head_padding_below_INT64_MAX [OF _ ps] to by (simp add: T_def)
  from fold_best [OF _ exact fold] sorted_scan_all [of 0 VictimInfos]
  consider
    (none) "\<forall>c\<in>set cs. \<not> acceptable_victim PageSize T Used Bit' Sign' (snd (snd c))"
       "Ret' = (UINT64_MAX, UINT64_MAX)"
  | (some) c where "c \<in> set cs" "acceptable_victim PageSize T Used Bit' Sign' (snd (snd c))"
       "Ret' = (word_of_nat (fst c), word_of_nat (fst (snd c)))"
       "\<forall>c'\<in>set cs. acceptable_victim PageSize T Used Bit' Sign' (snd (snd c')) \<longrightarrow>
           head_padding PageSize T (snd (snd c)) \<le> head_padding PageSize T (snd (snd c')) \<and>
           (head_padding PageSize T (snd (snd c')) = head_padding PageSize T (snd (snd c)) \<longrightarrow>
              c' = c \<or> scan_before c c')"
    using below unfolding cs_def by blast
  then show ?thesis
  proof cases
    case none
    have "\<not> candidate PageSize VictimInfos T Used Bit' Sign' I J" for I J
      using none(1) cand [of I J] by auto
    then show ?thesis
      using none(2) fv by (simp add: T_def)
  next
    case some
    obtain I J v where c: "c = (I, J, v)" by (cases c)
    have I: "I < length VictimInfos" and J: "J < length (VictimInfos ! I)"
      and v: "v = VictimInfos ! I ! J"
      using some(1) c mem [of c] by simp_all
    have I32: "I < 2 ^ 32" using I n by simp
    have "VictimInfos ! I \<in> set VictimInfos" using I by simp
    then have J32: "J < 2 ^ 32" using J m by fastforce
    have uI: "unat (fst Ret') = I" and uJ: "unat (snd Ret') = J"
      using some(3) c unat_word_of_nat_small [OF I32] unat_word_of_nat_small [OF J32]
      by simp_all
    have nomax: "fst Ret' \<noteq> UINT64_MAX"
      using some(3) c word_of_nat_small_neq_max [OF I32] by simp
    have chosen: "candidate PageSize VictimInfos T Used Bit' Sign' I J"
      using some(1,2) c v cand [of I J] by simp
    have best: "head_padding PageSize T (VictimInfos ! I ! J)
                  \<le> head_padding PageSize T (VictimInfos ! I' ! J') \<and>
                (head_padding PageSize T (VictimInfos ! I' ! J') =
                 head_padding PageSize T (VictimInfos ! I ! J) \<longrightarrow>
                   I < I' \<or> (I = I' \<and> J \<le> J'))"
      if "candidate PageSize VictimInfos T Used Bit' Sign' I' J'" for I' J'
    proof -
      have in_cs: "(I', J', VictimInfos ! I' ! J') \<in> set cs"
        and acc: "acceptable_victim PageSize T Used Bit' Sign' (VictimInfos ! I' ! J')"
        using that cand [of I' J'] by simp_all
      from some(4) in_cs acc
      have "head_padding PageSize T (snd (snd c))
              \<le> head_padding PageSize T (VictimInfos ! I' ! J') \<and>
            (head_padding PageSize T (VictimInfos ! I' ! J') =
             head_padding PageSize T (snd (snd c)) \<longrightarrow>
               (I', J', VictimInfos ! I' ! J') = c \<or>
               scan_before c (I', J', VictimInfos ! I' ! J'))"
        by fastforce
      then show ?thesis
        using c v by (auto simp: scan_before_def)
    qed
    show ?thesis
      using fv nomax uI uJ chosen best by (simp add: T_def)
  qed
qed

lemma findVictim_tie_run:
  "findVictim 4096 tie_victims {} fixed_block 3 True = Inr ((0, 1), {4})"
  by (simp add: findVictim_def victim_step_def INT64_MAX_def UINT64_MAX_def
      tie_victims_def fixed_block_def victim_def)

theorem findVictim_best_fit_witness:
  "TargetVictimInfo fixed_block = Some \<lparr>TargetOffset = 0x120\<rparr> \<and>
   TargetOffset \<lparr>TargetOffset = 0x120\<rparr> < (4096 :: u64) \<and>
   unat (4096 :: u64) < 2 ^ 63 \<and> length tie_victims < 2 ^ 32 \<and>
   findVictim 4096 tie_victims {} fixed_block 3 True = Inr ((0, 1), {4}) \<and>
   candidate 4096 tie_victims 0x120 {} 3 True 0 1 \<and>
   candidate 4096 tie_victims 0x120 {} 3 True 1 0 \<and>
   head_padding 4096 0x120 (tie_victims ! 0 ! 1) = 16 \<and>
   head_padding 4096 0x120 (tie_victims ! 1 ! 0) = 16 \<and>
   head_padding 4096 0x120 (tie_victims ! 0 ! 1) \<le> head_padding 4096 0x120 (tie_victims ! 0 ! 0)"
proof -
  have h1: "TargetVictimInfo fixed_block = Some \<lparr>TargetOffset = 0x120\<rparr>"
    by (simp add: fixed_block_def)
  have h2: "TargetOffset \<lparr>TargetOffset = 0x120\<rparr> < (4096 :: u64)" by simp
  have h3: "unat (4096 :: u64) < 2 ^ 63" by simp
  have h4: "length tie_victims < 2 ^ 32" by (simp add: tie_victims_def)
  have h5: "\<forall>vi\<in>set tie_victims. length vi < 2 ^ 32" by (simp add: tie_victims_def)
  have c00: "candidate 4096 tie_victims 0x120 {} 3 True 0 0"
    and c10: "candidate 4096 tie_victims 0x120 {} 3 True 1 0"
    by (simp_all add: candidate_def acceptable_victim_def head_padding_def
        tie_victims_def victim_def)
  have p: "head_padding 4096 0x120 (tie_victims ! 0 ! 1) = 16"
      "head_padding 4096 0x120 (tie_victims ! 1 ! 0) = 16"
    by (simp_all add: head_padding_def tie_victims_def victim_def)
  from findVictim_best_fit [OF h1 h2 h3 h4 h5, of "{}" 3 True]
  have chosen: "candidate 4096 tie_victims 0x120 {} 3 True 0 1"
    and least: "\<And>I J. candidate 4096 tie_victims 0x120 {} 3 True I J \<Longrightarrow>
        head_padding 4096 0x120 (tie_victims ! 0 ! 1)
          \<le> head_padding 4096 0x120 (tie_victims ! I ! J)"
    by (simp_all add: findVictim_tie_run)
  show ?thesis
    using h1 h2 h3 h4 findVictim_tie_run chosen c10 p least [OF c00] by simp
qed

subsection \<open>\<open>assignSpotVictim\<close>: the target lands on the victim's page offset\<close>

lemma uint_add_mod_2p:
  fixes a b :: u64
  assumes "k < 64"
  shows "uint (a + b) mod 2 ^ k = (uint a + uint b) mod 2 ^ k"
proof -
  have "(2::int) ^ k dvd 2 ^ 64" using assms by (intro le_imp_power_dvd) simp
  then have "((uint a + uint b) mod 2 ^ 64) mod 2 ^ k = (uint a + uint b) mod 2 ^ k"
    by (rule mod_mod_cancel)
  then show ?thesis by (simp add: uint_word_ariths)
qed

lemma uint_diff_mod_2p:
  fixes a b :: u64
  assumes "k < 64"
  shows "uint (a - b) mod 2 ^ k = (uint a - uint b) mod 2 ^ k"
proof -
  have "(2::int) ^ k dvd 2 ^ 64" using assms by (intro le_imp_power_dvd) simp
  then have "((uint a - uint b) mod 2 ^ 64) mod 2 ^ k = (uint a - uint b) mod 2 ^ k"
    by (rule mod_mod_cancel)
  then show ?thesis by (simp add: uint_word_ariths)
qed

lemma uint_mod_2p:
  fixes a :: u64
  assumes "k < 64"
  shows "uint (a mod 2 ^ k) = uint a mod 2 ^ k"
proof -
  have "uint (2 ^ k :: u64) = 2 ^ k"
    using assms by (intro uint_2p) (simp add: word_greater_zero_iff)
  then show ?thesis by (simp add: uint_mod)
qed

lemma BlockOffset_aligns:
  fixes f V T :: u64
  assumes k: "k < 64"
  shows "(uint (f + ((V mod 2 ^ k - T - f) mod 2 ^ k + 2 ^ k) mod 2 ^ k) + uint T) mod 2 ^ k
           = uint V mod 2 ^ k"
proof -
  define m :: int where "m = 2 ^ k"
  define X where "X = (V mod 2 ^ k - T - f) mod 2 ^ k"
  define BO where "BO = (X + 2 ^ k) mod 2 ^ k"
  have P: "uint (2 ^ k :: u64) = m"
    using k unfolding m_def by (intro uint_2p) (simp add: word_greater_zero_iff)
  have X: "uint X mod m = (uint V - uint T - uint f) mod m"
  proof -
    have "uint X mod m = uint (V mod 2 ^ k - T - f) mod m"
      unfolding X_def m_def by (simp add: uint_mod_2p [OF k])
    also have "\<dots> = (uint (V mod 2 ^ k - T) - uint f) mod m"
      unfolding m_def by (rule uint_diff_mod_2p [OF k])
    also have "\<dots> = (uint (V mod 2 ^ k - T) mod m - uint f) mod m"
      by (simp add: mod_simps)
    also have "uint (V mod 2 ^ k - T) mod m = (uint (V mod 2 ^ k) - uint T) mod m"
      unfolding m_def by (rule uint_diff_mod_2p [OF k])
    also have "uint (V mod 2 ^ k) = uint V mod m"
      unfolding m_def by (rule uint_mod_2p [OF k])
    finally show ?thesis by (simp add: mod_simps)
  qed
  have BO: "uint BO mod m = uint X mod m"
  proof -
    have "uint BO mod m = uint (X + 2 ^ k) mod m"
      unfolding BO_def m_def by (simp add: uint_mod_2p [OF k])
    also have "\<dots> = (uint X + uint (2 ^ k :: u64)) mod m"
      unfolding m_def by (rule uint_add_mod_2p [OF k])
    also have "\<dots> = uint X mod m" by (simp add: P)
    finally show ?thesis .
  qed
  have "(uint (f + BO) + uint T) mod m = (uint (f + BO) mod m + uint T) mod m"
    by (simp add: mod_simps)
  also have "uint (f + BO) mod m = (uint f + uint BO) mod m"
    unfolding m_def by (rule uint_add_mod_2p [OF k])
  also have "\<dots> = (uint f + uint BO mod m) mod m"
    by (simp add: mod_simps)
  also have "\<dots> = (uint f + (uint V - uint T - uint f) mod m) mod m"
    by (simp add: BO X)
  finally have "(uint (f + BO) + uint T) mod m = uint V mod m"
    by (simp add: mod_simps)
  then show ?thesis by (simp add: BO_def X_def m_def)
qed

lemma assignSpotVictim_offset:
  assumes "assignSpotVictim PageSize FreeList Page2Frame Block VI = Inr (FreeList', Page2Frame', Block')"
    and "TargetVictimInfo Block = Some TVI"
  shows "\<exists>first. SectionOffset Block' =
           first + ((VictimAddr VI mod PageSize - TargetOffset TVI - first) mod PageSize + PageSize)
                     mod PageSize"
  using assms
  by (auto simp: assignSpotVictim_def Let_def split: if_splits sum.splits prod.splits)

lemma scenario1_fits:
  fixes sz :: u64
  assumes "unat sz < 2 ^ 62"
  shows "\<not> (0x7FFFFFFFFFFFFFFF :: u64) < sz - 0x120 + 0x130"
proof -
  have eq: "sz - 0x120 + 0x130 = sz + 0x10" by simp
  have "unat sz + unat (0x10 :: u64) < 2 ^ 64"
    using assms by simp
  then have "unat (sz + 0x10) = unat sz + 16"
    using unat_add_exact [of sz "0x10"] by simp
  then have "unat (sz + 0x10) < unat (0x7FFFFFFFFFFFFFFF :: u64)"
    using assms by simp
  then show ?thesis
    unfolding eq by (simp add: word_less_nat_alt)
qed

lemma scenario1_placement:
  assumes tvi: "TargetVictimInfo B = Some \<lparr>TargetOffset = 0x120\<rparr>"
    and sz: "unat (BlockSize B) < 2 ^ 62" and va: "VictimAddr V = 0x4130"
  shows "\<exists>FreeList' Page2Frame'.
           assignSpotVictim 4096 [(0, UINT64_MAX div 2)] Map.empty B V =
             Inr (FreeList', Page2Frame', B\<lparr>SectionOffset := 0x10\<rparr>)"
proof -
  have S0: "assignSpotVictim_loop 4096 Map.empty 0x120 0x130 (BlockSize B) 0x4130
              [(0, 0x7FFFFFFFFFFFFFFF)] 0 = 0"
    using scenario1_fits [OF sz]
    by (simp add: assignSpotVictim_loop.simps [of _ _ _ _ _ _ _ 0] spot_unusable_def)
  have neq: "BlockSize B \<noteq> 0x7FFFFFFFFFFFFFEF"
    using sz by auto
  have "\<exists>FreeList2 RBI.
          removeFromFreelist [(0, 0x7FFFFFFFFFFFFFFF)] 0 0x10 (BlockSize B) = Inr (FreeList2, RBI) \<and>
          FreeList2 \<noteq> []"
    using neq by (simp add: removeFromFreelist_def list_insert_def Let_def)
  then obtain FreeList2 RBI where rm:
    "removeFromFreelist [(0, 0x7FFFFFFFFFFFFFFF)] 0 0x10 (BlockSize B) = Inr (FreeList2, RBI)"
    and ne: "FreeList2 \<noteq> []"
    by blast
  show ?thesis
    using tvi va S0 rm ne
    by (auto simp: assignSpotVictim_def Let_def UINT64_MAX_def to_unsigned_def
        splitFreelistAt_def split: sum.splits prod.splits)
qed

text \<open>
  C2. Whenever \<open>assignSpotVictim\<close> returns for a block with target offset \<open>TO\<close> and a
  victim, \<open>(SectionOffset + TO) mod PageSize = VictimAddr mod PageSize\<close>, for every page
  size that is a power of two (the configuration code masks addresses with
  \<open>PageAddrMask\<close>). And with the fresh free list, no page bound, page size 4096, a block of
  any size below \<open>2^62\<close> whose target is at offset \<open>0x120\<close> and a victim at \<open>0x4130\<close>, the
  call returns with the block at section offset \<open>0x10\<close>.
\<close>

theorem assignSpotVictim_aligns_target:
  "(assignSpotVictim PageSize FreeList Page2Frame Block VI = Inr (FreeList', Page2Frame', Block') \<longrightarrow>
      TargetVictimInfo Block = Some TVI \<longrightarrow> k < 64 \<longrightarrow> PageSize = 2 ^ k \<longrightarrow>
      (unat (SectionOffset Block') + unat (TargetOffset TVI)) mod unat PageSize =
        unat (VictimAddr VI) mod unat PageSize) \<and>
   (TargetVictimInfo B = Some \<lparr>TargetOffset = 0x120\<rparr> \<longrightarrow> unat (BlockSize B) < 2 ^ 62 \<longrightarrow>
      VictimAddr V = 0x4130 \<longrightarrow>
      (\<exists>FreeList' Page2Frame'.
         assignSpotVictim 4096 [(0, UINT64_MAX div 2)] Map.empty B V =
           Inr (FreeList', Page2Frame', B\<lparr>SectionOffset := 0x10\<rparr>)))"
proof (intro conjI impI)
  assume run: "assignSpotVictim PageSize FreeList Page2Frame Block VI =
                 Inr (FreeList', Page2Frame', Block')"
    and tvi: "TargetVictimInfo Block = Some TVI" and k: "k < 64" and P: "PageSize = 2 ^ k"
  from assignSpotVictim_offset [OF run tvi] obtain f where
    so: "SectionOffset Block' =
           f + ((VictimAddr VI mod 2 ^ k - TargetOffset TVI - f) mod 2 ^ k + 2 ^ k) mod 2 ^ k"
    unfolding P by blast
  have uP: "unat PageSize = 2 ^ k"
    using k unfolding P by (simp add: unat_eq_nat_uint uint_2p word_greater_zero_iff)
  have "int ((unat (SectionOffset Block') + unat (TargetOffset TVI)) mod 2 ^ k) =
        (uint (SectionOffset Block') + uint (TargetOffset TVI)) mod 2 ^ k"
    by (simp add: zmod_int)
  also have "\<dots> = uint (VictimAddr VI) mod 2 ^ k"
    unfolding so by (rule BlockOffset_aligns [OF k])
  also have "\<dots> = int (unat (VictimAddr VI) mod 2 ^ k)"
    by (simp add: zmod_int)
  finally show "(unat (SectionOffset Block') + unat (TargetOffset TVI)) mod unat PageSize =
        unat (VictimAddr VI) mod unat PageSize"
    unfolding uP by (simp only: of_nat_eq_iff)
next
  assume "TargetVictimInfo B = Some \<lparr>TargetOffset = 0x120\<rparr>" "unat (BlockSize B) < 2 ^ 62"
    "VictimAddr V = 0x4130"
  then show "\<exists>FreeList' Page2Frame'.
         assignSpotVictim 4096 [(0, UINT64_MAX div 2)] Map.empty B V =
           Inr (FreeList', Page2Frame', B\<lparr>SectionOffset := 0x10\<rparr>)"
    by (rule scenario1_placement)
qed

lemma assignSpotVictim_scenario1_run:
  "assignSpotVictim 4096 [(0, UINT64_MAX div 2)] Map.empty fixed_block (victim 0x4130 3 True) =
     Inr ([(0, 0x10), (0x210, 0xDF0), (0x1000, 0x7FFFFFFFFFFFEFFF)], [0 \<mapsto> 4],
          fixed_block\<lparr>SectionOffset := 0x10\<rparr>)"
  by (simp add: assignSpotVictim_def fixed_block_def victim_def UINT64_MAX_def Let_def
      assignSpotVictim_loop.simps spot_unusable_def removeFromFreelist_def list_insert_def
      to_unsigned_def splitFreelistAt_def)

lemma assignSpotVictim_second_page_run:
  "assignSpotVictim 4096 [(0x200, 0x80), (0x1000, 0x7FFFFFFFFFFFEFFF)] [0 \<mapsto> 4]
       fixed_block (victim 0x9130 3 True) =
     Inr ([(0x200, 0x80), (0x1000, 0x10), (0x1210, 0xDF0), (0x2000, 0x7FFFFFFFFFFFDFFF)],
          [0 \<mapsto> 4, 1 \<mapsto> 9], fixed_block\<lparr>SectionOffset := 0x1010\<rparr>)"
  by (simp add: assignSpotVictim_def fixed_block_def victim_def Let_def
      assignSpotVictim_loop.simps spot_unusable_def removeFromFreelist_def list_insert_def
      to_unsigned_def splitFreelistAt_def)

lemma assignSpotVictim_last_block_run:
  "assignSpotVictim 4096 [(0x200, 0x2000)] Map.empty
       (fixed_block\<lparr>BlockSize := 0x1200, TargetVictimInfo := Some \<lparr>TargetOffset = 0x130\<rparr>\<rparr>)
       (victim 0x4130 3 True) =
     Inr ([(0x200, 0xE00)], [1 \<mapsto> 4],
          fixed_block\<lparr>BlockSize := 0x1200, TargetVictimInfo := Some \<lparr>TargetOffset = 0x130\<rparr>,
                      SectionOffset := 0x1000\<rparr>)"
  by (simp add: assignSpotVictim_def fixed_block_def victim_def Let_def
      assignSpotVictim_loop.simps spot_unusable_def removeFromFreelist_def list_insert_def
      list_erase_def to_unsigned_def splitFreelistAt_def)

theorem assignSpotVictim_aligns_target_witness:
  "assignSpotVictim 4096 [(0x200, 0x80), (0x1000, 0x7FFFFFFFFFFFEFFF)] [0 \<mapsto> 4]
       fixed_block (victim 0x9130 3 True) =
     Inr ([(0x200, 0x80), (0x1000, 0x10), (0x1210, 0xDF0), (0x2000, 0x7FFFFFFFFFFFDFFF)],
          [0 \<mapsto> 4, 1 \<mapsto> 9], fixed_block\<lparr>SectionOffset := 0x1010\<rparr>) \<and>
   TargetVictimInfo fixed_block = Some \<lparr>TargetOffset = 0x120\<rparr> \<and> (12::nat) < 64 \<and>
   (4096 :: u64) = 2 ^ 12 \<and>
   (unat (0x1010 :: u64) + unat (0x120 :: u64)) mod unat (4096 :: u64) =
      unat (0x9130 :: u64) mod unat (4096 :: u64) \<and>
   assignSpotVictim 4096 [(0x200, 0x2000)] Map.empty
       (fixed_block\<lparr>BlockSize := 0x1200, TargetVictimInfo := Some \<lparr>TargetOffset = 0x130\<rparr>\<rparr>)
       (victim 0x4130 3 True) =
     Inr ([(0x200, 0xE00)], [1 \<mapsto> 4],
          fixed_block\<lparr>BlockSize := 0x1200, TargetVictimInfo := Some \<lparr>TargetOffset = 0x130\<rparr>,
                      SectionOffset := 0x1000\<rparr>) \<and>
   (unat (0x1000 :: u64) + unat (0x130 :: u64)) mod unat (4096 :: u64) =
      unat (0x4130 :: u64) mod unat (4096 :: u64) \<and>
   unat (BlockSize fixed_block) < 2 ^ 62 \<and>
   assignSpotVictim 4096 [(0, UINT64_MAX div 2)] Map.empty fixed_block (victim 0x4130 3 True) =
     Inr ([(0, 0x10), (0x210, 0xDF0), (0x1000, 0x7FFFFFFFFFFFEFFF)], [0 \<mapsto> 4],
          fixed_block\<lparr>SectionOffset := 0x10\<rparr>)"
proof -
  have tvi: "TargetVictimInfo fixed_block = Some \<lparr>TargetOffset = 0x120\<rparr>"
    by (simp add: fixed_block_def)
  have sz: "unat (BlockSize fixed_block) < 2 ^ 62" by (simp add: fixed_block_def)
  have va: "VictimAddr (victim 0x4130 3 True) = 0x4130" by (simp add: victim_def)
  have p: "(4096 :: u64) = 2 ^ 12" by simp
  note t = assignSpotVictim_aligns_target
    [of 4096 "[(0x200, 0x80), (0x1000, 0x7FFFFFFFFFFFEFFF)]" "[0 \<mapsto> 4]" fixed_block
       "victim 0x9130 3 True"
       "[(0x200, 0x80), (0x1000, 0x10), (0x1210, 0xDF0), (0x2000, 0x7FFFFFFFFFFFDFFF)]"
       "[0 \<mapsto> 4, 1 \<mapsto> 9]"
       "fixed_block\<lparr>SectionOffset := 0x1010\<rparr>" "\<lparr>TargetOffset = 0x120\<rparr>" 12
       fixed_block "victim 0x4130 3 True"]
  from t [THEN conjunct1, rule_format, OF assignSpotVictim_second_page_run tvi _ p]
  have a: "(unat (0x1010 :: u64) + unat (0x120 :: u64)) mod unat (4096 :: u64) =
      unat (0x9130 :: u64) mod unat (4096 :: u64)"
    by (simp add: victim_def)
  have tvi': "TargetVictimInfo
        (fixed_block\<lparr>BlockSize := 0x1200, TargetVictimInfo := Some \<lparr>TargetOffset = 0x130\<rparr>\<rparr>) =
      Some \<lparr>TargetOffset = 0x130\<rparr>"
    by simp
  note t' = assignSpotVictim_aligns_target
    [of 4096 "[(0x200, 0x2000)]" Map.empty
       "fixed_block\<lparr>BlockSize := 0x1200, TargetVictimInfo := Some \<lparr>TargetOffset = 0x130\<rparr>\<rparr>"
       "victim 0x4130 3 True" "[(0x200, 0xE00)]" "[1 \<mapsto> 4]"
       "fixed_block\<lparr>BlockSize := 0x1200, TargetVictimInfo := Some \<lparr>TargetOffset = 0x130\<rparr>,
                    SectionOffset := 0x1000\<rparr>"
       "\<lparr>TargetOffset = 0x130\<rparr>" 12 fixed_block "victim 0x4130 3 True"]
  from t' [THEN conjunct1, rule_format, OF assignSpotVictim_last_block_run tvi' _ p]
  have c: "(unat (0x1000 :: u64) + unat (0x130 :: u64)) mod unat (4096 :: u64) =
      unat (0x4130 :: u64) mod unat (4096 :: u64)"
    by (simp add: victim_def)
  from t [THEN conjunct2, rule_format, OF tvi sz va]
  have b: "\<exists>FreeList' Page2Frame'.
      assignSpotVictim 4096 [(0, UINT64_MAX div 2)] Map.empty fixed_block (victim 0x4130 3 True) =
        Inr (FreeList', Page2Frame', fixed_block\<lparr>SectionOffset := 0x10\<rparr>)" .
  show ?thesis
    using assignSpotVictim_second_page_run assignSpotVictim_last_block_run
      assignSpotVictim_scenario1_run tvi sz a b c
    by simp
qed

subsection \<open>\<open>assignSpotAtDist\<close>\<close>

lemma assignSpot_loop_ge: "FreeListItr \<le> assignSpot_loop FreeList FreeListItr sz"
proof (induction FreeList FreeListItr sz rule: assignSpot_loop.induct)
  case (1 FreeList FreeListItr sz)
  show ?case
  proof (cases "FreeListItr < length FreeList \<and> snd (FreeList ! FreeListItr) < sz")
    case True
    then have "Suc FreeListItr \<le> assignSpot_loop FreeList (Suc FreeListItr) sz"
      using "1.IH" by simp
    then show ?thesis
      using True by (subst assignSpot_loop.simps) simp
  next
    case False
    then show ?thesis by (subst assignSpot_loop.simps) auto
  qed
qed

lemma assignSpot_rollback:
  assumes "assignSpot Start' FreeList Block = Inr (Itr, FreeList', Block', RBI)"
  shows "rollback FreeList' RBI = FreeList \<and> Start' < length FreeList"
proof -
  from assms have rm: "removeFromFreelist FreeList Itr 0 (BlockSize Block) = Inr (FreeList', RBI)"
    and itr: "Itr = assignSpot_loop FreeList Start' (BlockSize Block)"
    by (auto simp: assignSpot_def Let_def split: if_splits sum.splits)
  from rm have "Itr < length FreeList"
    by (auto simp: removeFromFreelist_def split: if_splits)
  then have "Start' < length FreeList"
    using assignSpot_loop_ge [of Start' FreeList "BlockSize Block"] itr by simp
  then show ?thesis
    using removeFromFreelist_rollback_restores [OF rm] by simp
qed

termination assignSpotAtDist_loop
proof (relation "measure (\<lambda>(FreeList, Start', NormalDest, FlipSize, Dist). length FreeList - Start')")
  show "wf (measure (\<lambda>(FreeList, Start', NormalDest, FlipSize, Dist). length FreeList - Start'))"
    by simp
next
  fix FreeList :: FreeListT and Start' :: nat and NormalDest :: Block and FlipSize Dist :: u64
    and x2 x y xa ya xb yb
  assume "assignSpot Start' FreeList NormalDest = Inr x2" "(x, y) = x2" "(xa, ya) = y"
    "(xb, yb) = ya"
  then have "assignSpot Start' FreeList NormalDest = Inr (x, xa, xb, yb)" by simp
  from assignSpot_rollback [OF this]
  have "rollback xa yb = FreeList" and "Start' < length FreeList" by simp_all
  then show "((rollback xa yb, Suc Start', xb, FlipSize, Dist),
         (FreeList, Start', NormalDest, FlipSize, Dist))
        \<in> measure (\<lambda>(FreeList, Start', NormalDest, FlipSize, Dist). length FreeList - Start')"
    by simp
qed

declare assignSpotAtDist_loop.simps [simp del]

lemmas solver_eval = solveFF_def solveFF_place_def solveFF_prepare_def solveFF_Dist_def ceil_log2_def compute_floorlog
  solveFF_target_def solveFF_victim_def findVictim_def victim_step_def INT64_MAX_def UINT64_MAX_def
  assignSpotVictim_def Let_def assignSpotVictim_loop.simps spot_unusable_def removeFromFreelist_def
  list_insert_def list_erase_def to_unsigned_def splitFreelistAt_def createBlock_def isTarget_def
  map_count_def new_Result_def assignSpot_def assignSpot_loop.simps assignSpotAtDist_def
  assignSpotAtDist_loop.simps assignSpotAtDist_scan.simps rollback_def list_erase_range_def

lemma assignSpotAtDist_scenario2_run:
  "assignSpotAtDist [(0, UINT64_MAX div 2)] scenario2_N scenario2_F 32 =
     Inr ([(16, 16), (48, 0x7FFFFFFFFFFFFFCF)],
          scenario2_N\<lparr>SectionOffset := 0\<rparr>, scenario2_F\<lparr>SectionOffset := 32\<rparr>)"
  by (simp add: solver_eval scenario2_N_def scenario2_F_def)

lemma solveFF_prepare_scenario2_run:
  "\<exists>split. solveFF_prepare scenario2_size scenario2_bundles = Inr (split, 5, 32)"
  by (simp add: solver_eval scenario2_bundles_def scenario2_size_def mk_bundle_def)

lemma ceil_log2_eq_ceillog2: "ceil_log2 n = ceillog2 n"
proof (cases "n \<le> 1")
  case True
  then show ?thesis by (simp add: ceil_log2_def)
next
  case False
  define l where "l = floorlog 2 (n - 1)"
  have pos: "0 < n - 1" using False by simp
  from floorlog_bounds [OF pos, of 2]
  have lo: "2 ^ (l - 1) \<le> n - 1" and hi: "n - 1 < 2 ^ l"
    by (simp_all add: l_def)
  have l1: "1 \<le> l"
    using pos by (simp add: l_def floorlog_def)
  have "(2::nat) ^ l = 2 * 2 ^ (l - 1)"
    using l1 by (cases l) simp_all
  then have "(2::nat) ^ l < 2 * n" using lo False by simp
  moreover have "n \<le> 2 ^ l" using hi by simp
  ultimately have "ceillog2 n = l" by (intro ceillog2_eqI)
  then show ?thesis using False by (simp add: ceil_log2_def l_def)
qed

lemma ceil_log2_real: "0 < n \<Longrightarrow> int (ceil_log2 n) = \<lceil>log 2 (real n)\<rceil>"
proof -
  assume n: "0 < n"
  then have "1 \<le> real n" by simp
  then have "0 \<le> log 2 (real n)" by simp
  then have "0 \<le> \<lceil>log 2 (real n)\<rceil>" by (simp add: ceiling_le_iff)
  then show ?thesis
    using n by (simp add: ceil_log2_eq_ceillog2 ceillog2_def)
qed

lemma solveFF_split_AvgSize:
  "solveFF_split g Bs I rest st = Inr st' \<Longrightarrow> AvgSize st' = fold max (map g rest) (AvgSize st)"
proof (induction rest arbitrary: I st)
  case Nil
  then show ?case by simp
next
  case (Cons b rest)
  show ?case
  proof (cases "Kind (Spec b)")
    case TargetNone
    with Cons.prems obtain t where
      "solveFF_split g Bs (Suc I) rest
         (st\<lparr>Targets := Targets st @ [t], AvgSize := max (AvgSize st) (g b)\<rparr>) = Inr st'"
      by (auto split: sum.splits)
    from Cons.IH [OF this] show ?thesis by (simp add: max.commute)
  next
    case TargetDestination
    with Cons.prems have
      "solveFF_split g Bs (Suc I) rest (st\<lparr>AvgSize := max (AvgSize st) (g b)\<rparr>) = Inr st'"
      by simp
    from Cons.IH [OF this] show ?thesis by (simp add: max.commute)
  next
    case (TargetFixed x y)
    with Cons.prems obtain t where
      "solveFF_split g Bs (Suc I) rest
         (st\<lparr>Targets := Targets st @ [t], AvgSize := max (AvgSize st) (g b)\<rparr>) = Inr st'"
      by (auto split: sum.splits)
    from Cons.IH [OF this] show ?thesis by (simp add: max.commute)
  next
    case (TargetRange r n f)
    with Cons.prems obtain t N F m where
      "solveFF_split g Bs (Suc I) rest
         (st\<lparr>Targets := Targets st @ [t], AvgSize := max (AvgSize st) (g b),
             TargetDests := TargetDests st @ [(N, F)], MaxNormalDestSize := m\<rparr>) = Inr st'"
      by (auto split: sum.splits)
    from Cons.IH [OF this] show ?thesis by (simp add: max.commute)
  qed
qed

lemma fold_max_Max:
  fixes a :: "'a::linorder"
  shows "fold max xs a = Max (insert a (set xs))"
proof (induction xs arbitrary: a)
  case Nil
  then show ?case by simp
next
  case (Cons x xs)
  have "fold max (x # xs) a = Max (insert (max x a) (set xs))"
    using Cons.IH [of "max x a"] by simp
  also have "\<dots> = Max (insert a (set (x # xs)))"
  proof (cases "set xs = {}")
    case True
    then show ?thesis by (simp add: max.commute)
  next
    case False
    then show ?thesis
      by (simp add: Max_insert max.assoc max.commute max.left_commute)
  qed
  finally show ?case .
qed

lemma solveFF_prepare_AvgSize:
  assumes "solveFF_prepare g Bs = Inr (split, B, Dist)" and "Bs \<noteq> []"
  shows "AvgSize split = Max (g ` set Bs)" and "solveFF_Dist (Max (g ` set Bs)) = Inr (B, Dist)"
proof -
  from assms(1) have sp: "solveFF_split g Bs 0 Bs
      \<lparr>AvgSize = 0, Targets = [], TargetDests = [], MaxNormalDestSize = 0\<rparr> = Inr split"
    and d: "solveFF_Dist (AvgSize split) = Inr (B, Dist)"
    by (auto simp: solveFF_prepare_def split: sum.splits)
  have "AvgSize split = Max (insert 0 (g ` set Bs))"
    using solveFF_split_AvgSize [OF sp] by (simp add: fold_max_Max)
  also have "\<dots> = max 0 (Max (g ` set Bs))"
    using assms(2) by (simp add: Max_insert)
  also have "\<dots> = Max (g ` set Bs)"
    by (simp add: max_def)
  finally show "AvgSize split = Max (g ` set Bs)" .
  with d show "solveFF_Dist (Max (g ` set Bs)) = Inr (B, Dist)" by simp
qed

text \<open>
  C3. Whenever \<open>assignSpotAtDist\<close> returns, the flip destination lies exactly \<open>Dist\<close>
  after the normal destination. The distance \<open>solveFF\<close> computes for a non-empty bundle
  vector is \<open>2 ^ B\<close> with \<open>B = \<lceil>log\<^sub>2 m\<rceil>\<close>, \<open>m\<close> the largest bundle size, and \<open>B < 32\<close>; when
  \<open>\<lceil>log\<^sub>2 m\<rceil>\<close> is 32 or more, \<open>solveFF\<close> aborts. (The \<open>double\<close> arithmetic of the source is
  modelled on natural numbers, see \<open>solveFF_Dist\<close>.)
\<close>

theorem range_pair_distance:
  "(assignSpotAtDist FreeList NormalDest FlipDest Dist =
        Inr (FreeList', NormalDest', FlipDest') \<longrightarrow>
      SectionOffset FlipDest' - SectionOffset NormalDest' = Dist) \<and>
   (Bundles \<noteq> [] \<longrightarrow> solveFF_prepare getBundleSize Bundles = Inr (split, B, Dist') \<longrightarrow>
      int B = \<lceil>log 2 (real (unat (Max (getBundleSize ` set Bundles))))\<rceil> \<and> B < 32 \<and>
      Dist' = 2 ^ B \<and> unat Dist' = 2 ^ B) \<and>
   (Bundles \<noteq> [] \<longrightarrow>
      \<not> \<lceil>log 2 (real (unat (Max (getBundleSize ` set Bundles))))\<rceil> < 32 \<longrightarrow>
      (\<exists>e. solveFF PageSize VictimInfos getBundleSize Bundles Results statics = Inl e))"
proof -
  have dist: "int b = \<lceil>log 2 (real (unat (Max (getBundleSize ` set Bundles))))\<rceil> \<and> b < 32 \<and>
      d = 2 ^ b \<and> unat d = 2 ^ b"
    if ne: "Bundles \<noteq> []" and run: "solveFF_prepare getBundleSize Bundles = Inr (s, b, d)"
    for s b d
  proof -
    define m where "m = Max (getBundleSize ` set Bundles)"
    from solveFF_prepare_AvgSize(2) [OF run ne]
    have d: "solveFF_Dist m = Inr (b, d)" by (simp add: m_def)
    then have m0: "m \<noteq> 0" and b: "b = ceil_log2 (unat m)" and b32: "b < 32" and dd: "d = 2 ^ b"
      by (auto simp: solveFF_Dist_def Let_def split: if_splits)
    have "0 < unat m" using m0 by (simp add: unat_gt_0)
    then have "int b = \<lceil>log 2 (real (unat m))\<rceil>"
      using ceil_log2_real b by simp
    moreover have "unat d = 2 ^ b"
    proof -
      have "b < LENGTH(64)" using b32 by simp
      then show ?thesis unfolding dd by (simp add: unat_eq_nat_uint uint_2p word_greater_zero_iff)
    qed
    ultimately show ?thesis using b32 dd by (simp add: m_def)
  qed
  have p1: "assignSpotAtDist FreeList NormalDest FlipDest Dist =
        Inr (FreeList', NormalDest', FlipDest') \<longrightarrow>
      SectionOffset FlipDest' - SectionOffset NormalDest' = Dist"
    by (auto simp: assignSpotAtDist_def Let_def split: sum.splits)
  have p3: "\<exists>e. solveFF PageSize VictimInfos getBundleSize Bundles Results statics = Inl e"
    if ne: "Bundles \<noteq> []"
      and big: "\<not> \<lceil>log 2 (real (unat (Max (getBundleSize ` set Bundles))))\<rceil> < 32"
  proof (cases "solveFF_prepare getBundleSize Bundles")
    case (Inl e)
    then show ?thesis by (simp add: solveFF_def)
  next
    case (Inr r)
    obtain s b d where "r = (s, b, d)" by (cases r)
    with Inr have "solveFF_prepare getBundleSize Bundles = Inr (s, b, d)" by simp
    from dist [OF ne this]
    have "int b = \<lceil>log 2 (real (unat (Max (getBundleSize ` set Bundles))))\<rceil>" and "b < 32"
      by blast+
    then have "\<lceil>log 2 (real (unat (Max (getBundleSize ` set Bundles))))\<rceil> < 32"
      by linarith
    with big show ?thesis by blast
  qed
  show ?thesis using p1 dist p3 by blast
qed

lemma huge_log: "\<lceil>log 2 (real (unat (0x80000001 :: u64)))\<rceil> = 33 - 1"
proof -
  have "int (ceil_log2 (unat (0x80000001 :: u64))) = 32"
    by (simp add: ceil_log2_def compute_floorlog)
  then show ?thesis
    using ceil_log2_real [of "unat (0x80000001 :: u64)"] by simp
qed

theorem range_pair_distance_witness:
  "assignSpotAtDist [(0, UINT64_MAX div 2)] scenario2_N scenario2_F 32 =
     Inr ([(16, 16), (48, 0x7FFFFFFFFFFFFFCF)],
          scenario2_N\<lparr>SectionOffset := 0\<rparr>, scenario2_F\<lparr>SectionOffset := 32\<rparr>) \<and>
   SectionOffset (scenario2_F\<lparr>SectionOffset := 32\<rparr>)
     - SectionOffset (scenario2_N\<lparr>SectionOffset := 0\<rparr>) = 32 \<and>
   scenario2_bundles \<noteq> [] \<and>
   (\<exists>split. solveFF_prepare scenario2_size scenario2_bundles = Inr (split, 5, 32)) \<and>
   int 5 = \<lceil>log 2 (real (unat (Max (scenario2_size ` set scenario2_bundles))))\<rceil> \<and>
   unat (32 :: u64) = 2 ^ 5 \<and>
   \<not> \<lceil>log 2 (real (unat (Max (huge_size ` set scenario1_bundles))))\<rceil> < 32 \<and>
   (\<exists>e. solveFF 4096 scenario1_victims huge_size scenario1_bundles [] initial_statics = Inl e)"
proof -
  obtain split where prep: "solveFF_prepare scenario2_size scenario2_bundles = Inr (split, 5, 32)"
    using solveFF_prepare_scenario2_run by blast
  have ne2: "scenario2_bundles \<noteq> []" by (simp add: scenario2_bundles_def)
  have ne1: "scenario1_bundles \<noteq> []" by (simp add: scenario1_bundles_def)
  have big: "\<not> \<lceil>log 2 (real (unat (Max (huge_size ` set scenario1_bundles))))\<rceil> < 32"
    using huge_log by (simp add: scenario1_bundles_def huge_size_def)
  note t1 = range_pair_distance [of "[(0, UINT64_MAX div 2)]" scenario2_N scenario2_F 32
      "[(16, 16), (48, 0x7FFFFFFFFFFFFFCF)]" "scenario2_N\<lparr>SectionOffset := 0\<rparr>"
      "scenario2_F\<lparr>SectionOffset := 32\<rparr>" scenario2_bundles scenario2_size split 5 32]
  note t2 = range_pair_distance [of "[]" scenario2_N scenario2_F 0 "[]" scenario2_N scenario2_F
      scenario1_bundles huge_size split 0 0 4096 scenario1_victims "[]" initial_statics]
  have a: "SectionOffset (scenario2_F\<lparr>SectionOffset := 32\<rparr>)
     - SectionOffset (scenario2_N\<lparr>SectionOffset := 0\<rparr>) = 32"
    using t1 [THEN conjunct1] assignSpotAtDist_scenario2_run by blast
  have b: "int 5 = \<lceil>log 2 (real (unat (Max (scenario2_size ` set scenario2_bundles))))\<rceil>"
    and c: "unat (32 :: u64) = 2 ^ 5"
    using t1 [THEN conjunct2, THEN conjunct1] ne2 prep by blast+
  have d: "\<exists>e. solveFF 4096 scenario1_victims huge_size scenario1_bundles [] initial_statics = Inl e"
    using t2 [THEN conjunct2, THEN conjunct2] ne1 big by blast
  show ?thesis
    using assignSpotAtDist_scenario2_run a ne2 prep b c big d by blast
qed

subsection \<open>The statics \<open>Used\<close> and \<open>Page2Frame\<close> across invocations of \<open>solveFF\<close>\<close>

lemma solveFF_scenario1_run:
  "solveFF 4096 scenario1_victims scenario1_size scenario1_bundles [] initial_statics =
     Inr ([(0x10, \<lparr>ResBundleIdx = 0, VictimFrame = Some 0, VictimFrameIdx = Some 0,
                    VictimPageOffset = Some 0x130\<rparr>)],
          \<lparr>static_Used = {4}, static_Page2Frame = [0 \<mapsto> 4]\<rparr>)"
  by (simp add: solver_eval scenario1_victims_def scenario1_size_def scenario1_bundles_def
      mk_bundle_def initial_statics_def victim_def)

lemma solveFF_scenario1_again:
  "solveFF 4096 scenario1_victims scenario1_size scenario1_bundles []
       \<lparr>static_Used = {4}, static_Page2Frame = [0 \<mapsto> 4]\<rparr> = Inl Assert_enough_victims"
  by (simp add: solver_eval scenario1_victims_def scenario1_size_def scenario1_bundles_def
      mk_bundle_def victim_def)

lemma statics_le_refl: "statics_le a a"
  by (simp add: statics_le_def)

lemma statics_le_trans: "statics_le a b \<Longrightarrow> statics_le b c \<Longrightarrow> statics_le a c"
  unfolding statics_le_def by (meson map_le_trans order_trans)

lemma findVictim_Used_grows:
  "findVictim PageSize VictimInfos Used0 Block Bit' Sign' = Inr (R, Used1) \<Longrightarrow> Used0 \<subseteq> Used1"
  by (auto simp: findVictim_def Let_def split: option.splits if_splits prod.splits)

lemma assignSpotVictim_Page2Frame_grows:
  "assignSpotVictim PageSize FreeList P2F Block VI = Inr (FreeList', P2F', Block') \<Longrightarrow> P2F \<subseteq>\<^sub>m P2F'"
  by (auto simp: assignSpotVictim_def Let_def map_le_def
      split: option.splits if_splits sum.splits prod.splits)

lemma solveFF_victim_statics:
  assumes "solveFF_victim PageSize VictimInfos Block Bit' Sign' (FreeList, Results, statics) =
             Inr (FreeList', Results', statics')"
  shows "statics_le statics statics'"
proof -
  from assms obtain R Used1 FreeList1 P2F1 Block1 where
    fv: "findVictim PageSize VictimInfos (static_Used statics) Block Bit' Sign' = Inr (R, Used1)"
    and av: "assignSpotVictim PageSize FreeList (static_Page2Frame statics) Block
               (VictimInfos ! unat (fst R) ! unat (snd R)) = Inr (FreeList1, P2F1, Block1)"
    and st: "statics' = \<lparr>static_Used = Used1, static_Page2Frame = P2F1\<rparr>"
    by (auto simp: solveFF_victim_def Let_def split: sum.splits prod.splits if_splits)
  show ?thesis
    using findVictim_Used_grows [OF fv] assignSpotVictim_Page2Frame_grows [OF av]
    by (simp add: statics_le_def st)
qed

lemma solveFF_target_statics:
  assumes "solveFF_target PageSize VictimInfos Bundles RBO RB RS Block (FreeList, Results, statics) =
             Inr (FreeList', Results', statics')"
  shows "statics_le statics statics'"
proof (cases "TargetVictimInfo Block")
  case None
  with assms have "statics' = statics"
    by (auto simp: solveFF_target_def split: sum.splits prod.splits if_splits)
  then show ?thesis by (simp add: statics_le_refl)
next
  case (Some TVI)
  with assms show ?thesis
    by (auto simp: solveFF_target_def split: TargetKind.splits dest: solveFF_victim_statics)
qed

lemma solveFF_targets_statics:
  "solveFF_targets PageSize VictimInfos Bundles RBO RB RS Blocks (FreeList, Results, statics) =
     Inr (FreeList', Results', statics') \<Longrightarrow> statics_le statics statics'"
proof (induction Blocks arbitrary: FreeList Results statics)
  case Nil
  then show ?case by (simp add: statics_le_refl)
next
  case (Cons Block rest)
  from Cons.prems obtain FreeList1 Results1 statics1 where
    one: "solveFF_target PageSize VictimInfos Bundles RBO RB RS Block (FreeList, Results, statics) =
            Inr (FreeList1, Results1, statics1)"
    and more: "solveFF_targets PageSize VictimInfos Bundles RBO RB RS rest
                 (FreeList1, Results1, statics1) = Inr (FreeList', Results', statics')"
    by (auto split: sum.splits)
  show ?case
    using solveFF_target_statics [OF one] Cons.IH [OF more] by (rule statics_le_trans)
qed

lemma solveFF_statics:
  assumes "solveFF PageSize VictimInfos getBundleSize Bundles Results statics = Inr (Results', statics')"
  shows "statics_le statics statics'"
  using assms
  by (auto simp: solveFF_def solveFF_place_def Let_def split: sum.splits prod.splits
      dest: solveFF_targets_statics)

lemma solveFF_starts_above: "\<forall>s\<in>set (solveFF_starts statics calls). statics_le statics s"
proof (induction calls arbitrary: statics)
  case Nil
  then show ?case by simp
next
  case (Cons c calls)
  show ?case
  proof (cases "solveFF (call_PageSize c) (call_VictimInfos c) (call_getBundleSize c)
                  (call_Bundles c) [] statics")
    case (Inl e)
    then show ?thesis by (simp add: statics_le_refl)
  next
    case (Inr r)
    obtain Results' statics' where r: "r = (Results', statics')" by (cases r)
    have le: "statics_le statics statics'"
      using Inr r solveFF_statics by simp
    have "\<forall>s\<in>set (solveFF_starts statics' calls). statics_le statics s"
      using Cons.IH [of statics'] le statics_le_trans by blast
    then show ?thesis using Inr r by (simp add: statics_le_refl)
  qed
qed

lemma solveFF_starts_chain: "sorted_wrt statics_le (solveFF_starts statics calls)"
proof (induction calls arbitrary: statics)
  case Nil
  then show ?case by simp
next
  case (Cons c calls)
  show ?case
  proof (cases "solveFF (call_PageSize c) (call_VictimInfos c) (call_getBundleSize c)
                  (call_Bundles c) [] statics")
    case (Inl e)
    then show ?thesis by simp
  next
    case (Inr r)
    obtain Results' statics' where r: "r = (Results', statics')" by (cases r)
    have le: "statics_le statics statics'"
      using Inr r solveFF_statics by simp
    have "\<forall>s\<in>set (solveFF_starts statics' calls). statics_le statics s"
      using solveFF_starts_above [of statics' calls] le statics_le_trans by blast
    then show ?thesis using Inr r Cons.IH [of statics'] by simp
  qed
qed

text \<open>
  C4, as claimed: at the start of every invocation of \<open>solveFF\<close> the set \<open>Used\<close> and the
  map \<open>Page2Frame\<close> are empty. Nothing in the sources clears them. Two invocations on
  scenario 1 in one process: the second starts with frame \<open>4\<close> marked used and page \<open>0\<close>
  bound to it (and aborts for want of a victim).
\<close>

theorem statics_carry_over:
  "solveFF_starts initial_statics [scenario1_call, scenario1_call] =
     [initial_statics, \<lparr>static_Used = {4}, static_Page2Frame = [0 \<mapsto> 4]\<rparr>] \<and>
   \<not> (\<forall>calls. \<forall>s\<in>set (solveFF_starts initial_statics calls).
          static_Used s = {} \<and> static_Page2Frame s = Map.empty)"
proof -
  have run: "solveFF_starts initial_statics [scenario1_call, scenario1_call] =
     [initial_statics, \<lparr>static_Used = {4}, static_Page2Frame = [0 \<mapsto> 4]\<rparr>]"
    by (simp add: scenario1_call_def solveFF_scenario1_run solveFF_scenario1_again)
  have "\<not> (\<forall>s\<in>set (solveFF_starts initial_statics [scenario1_call, scenario1_call]).
          static_Used s = {} \<and> static_Page2Frame s = Map.empty)"
    unfolding run by simp
  then show ?thesis using run by blast
qed

text \<open>
  C4, amended. Every invocation of \<open>solveFF\<close> places into a fresh free list
  \<open>[(0, UINT64_MAX / 2)]\<close>. \<open>Used\<close> and \<open>Page2Frame\<close> are empty at the first invocation in a
  process; an invocation only adds to them, so the statics at the starts of successive
  invocations form an increasing chain: every frame marked used and every page binding
  of an earlier invocation is still there at each later one.
\<close>

theorem statics_persist:
  "(solveFF PageSize VictimInfos getBundleSize Bundles Results statics = Inr (Results', statics') \<longrightarrow>
      static_Used statics \<subseteq> static_Used statics' \<and>
      static_Page2Frame statics \<subseteq>\<^sub>m static_Page2Frame statics') \<and>
   sorted_wrt statics_le (solveFF_starts statics calls) \<and>
   solveFF_starts initial_statics (c # calls) ! 0 = initial_statics \<and>
   static_Used initial_statics = {} \<and> static_Page2Frame initial_statics = Map.empty \<and>
   solveFF PageSize VictimInfos getBundleSize Bundles Results statics =
     (case solveFF_prepare getBundleSize Bundles of
        Inl e \<Rightarrow> Inl e
      | Inr (split, B, Dist) \<Rightarrow>
          solveFF_place PageSize VictimInfos Bundles split B Dist [(0, UINT64_MAX div 2)]
            Results statics)"
proof -
  have "solveFF PageSize VictimInfos getBundleSize Bundles Results statics = Inr (Results', statics') \<longrightarrow>
      static_Used statics \<subseteq> static_Used statics' \<and>
      static_Page2Frame statics \<subseteq>\<^sub>m static_Page2Frame statics'"
    using solveFF_statics [of PageSize VictimInfos getBundleSize Bundles Results statics
        Results' statics']
    by (simp add: statics_le_def)
  moreover have "solveFF PageSize VictimInfos getBundleSize Bundles Results statics =
     (case solveFF_prepare getBundleSize Bundles of
        Inl e \<Rightarrow> Inl e
      | Inr (split, B, Dist) \<Rightarrow>
          solveFF_place PageSize VictimInfos Bundles split B Dist [(0, UINT64_MAX div 2)]
            Results statics)"
    by (simp add: solveFF_def Let_def split: sum.splits prod.splits)
  ultimately show ?thesis
    using solveFF_starts_chain [of statics calls]
    by (simp add: initial_statics_def)
qed

theorem statics_persist_witness:
  "solveFF 4096 scenario1_victims scenario1_size scenario1_bundles [] initial_statics =
     Inr ([(0x10, \<lparr>ResBundleIdx = 0, VictimFrame = Some 0, VictimFrameIdx = Some 0,
                    VictimPageOffset = Some 0x130\<rparr>)],
          \<lparr>static_Used = {4}, static_Page2Frame = [0 \<mapsto> 4]\<rparr>) \<and>
   static_Used initial_statics \<subseteq> static_Used \<lparr>static_Used = {4}, static_Page2Frame = [0 \<mapsto> 4]\<rparr> \<and>
   static_Page2Frame initial_statics \<subseteq>\<^sub>m
     static_Page2Frame \<lparr>static_Used = {4}, static_Page2Frame = [0 \<mapsto> 4]\<rparr> \<and>
   sorted_wrt statics_le (solveFF_starts initial_statics [scenario1_call, scenario1_call])"
proof -
  note t = statics_persist [of 4096 scenario1_victims scenario1_size scenario1_bundles "[]"
      initial_statics
      "[(0x10, \<lparr>ResBundleIdx = 0, VictimFrame = Some 0, VictimFrameIdx = Some 0,
                    VictimPageOffset = Some 0x130\<rparr>)]"
      "\<lparr>static_Used = {4}, static_Page2Frame = [0 \<mapsto> 4]\<rparr>"
      "[scenario1_call, scenario1_call]" scenario1_call]
  from t [THEN conjunct1] solveFF_scenario1_run
  have a: "static_Used initial_statics \<subseteq> static_Used \<lparr>static_Used = {4}, static_Page2Frame = [0 \<mapsto> 4]\<rparr> \<and>
     static_Page2Frame initial_statics \<subseteq>\<^sub>m
       static_Page2Frame \<lparr>static_Used = {4}, static_Page2Frame = [0 \<mapsto> 4]\<rparr>"
    by blast
  from t [THEN conjunct2, THEN conjunct1]
  have b: "sorted_wrt statics_le (solveFF_starts initial_statics [scenario1_call, scenario1_call])" .
  show ?thesis using solveFF_scenario1_run a b by blast
qed

subsection \<open>The fixup policy\<close>

text \<open>
  C10. With a backend in place, \<open>fixupNeedsRelaxation\<close> answers \<open>true\<close> for every fixup in
  every mode but baseline, in offsets mode as in dbl mode, whatever the host would
  decide; in baseline mode the answer is the host's. Hence a relaxable fragment that may
  need relaxation and has a fixup is relaxed in offsets and dbl mode.
\<close>

theorem fixupNeedsRelaxation_modes:
  "(hasBackend \<longrightarrow> DBLMode \<noteq> Baseline \<longrightarrow>
      fixupNeedsRelaxation DBLMode hasBackend host_decision Fixup = Inr True) \<and>
   (hasBackend \<longrightarrow>
      fixupNeedsRelaxation Baseline hasBackend host_decision Fixup = Inr (host_decision Fixup)) \<and>
   (hasBackend \<longrightarrow> DBLMode \<noteq> Baseline \<longrightarrow> Fixups \<noteq> [] \<longrightarrow>
      fragmentNeedsRelaxation DBLMode hasBackend host_decision True Fixups = Inr True)"
proof -
  have one: "fixupNeedsRelaxation DBLMode hasBackend host_decision f = Inr True"
    if "hasBackend" "DBLMode \<noteq> Baseline" for f
    using that by (simp add: fixupNeedsRelaxation_def default_MCValue_def)
  have "fragmentNeedsRelaxation DBLMode hasBackend host_decision True Fixups = Inr True"
    if "hasBackend" "DBLMode \<noteq> Baseline" "Fixups \<noteq> []"
    using that one by (cases Fixups) (simp_all add: fragmentNeedsRelaxation_def)
  then show ?thesis
    using one by (simp add: fixupNeedsRelaxation_def default_MCValue_def)
qed

theorem fixupNeedsRelaxation_modes_witness:
  "fixupNeedsRelaxation Offsets True (\<lambda>f. False) FK_PCRel_1 = Inr True \<and>
   fixupNeedsRelaxation DBL True (\<lambda>f. False) FK_PCRel_1 = Inr True \<and>
   fixupNeedsRelaxation Baseline True (\<lambda>f. False) FK_PCRel_1 = Inr False \<and>
   fragmentNeedsRelaxation Offsets True (\<lambda>f. False) True [FK_PCRel_1] = Inr True"
  using fixupNeedsRelaxation_modes [of True Offsets "\<lambda>f. False" FK_PCRel_1 "[FK_PCRel_1]"]
    fixupNeedsRelaxation_modes [of True DBL "\<lambda>f. False" FK_PCRel_1 "[FK_PCRel_1]"]
  by simp

subsection \<open>Bridge jumps and labels\<close>

lemma bridge_two_run:
  "\<exists>S'. insert_bridge_jumps two_bundles two_fragments = Inr S' \<and>
     Symbols S' = [(TempSymbol 0, 1, 0), (TempSymbol 1, 0, 0)] \<and>
     Frags S' 0 = DBLFragment 12 [TempSymbol 0] \<and> Frags S' 1 = DBLFragment 9 []"
  by (simp add: insert_bridge_jumps_def bridge_step_def find_EndFrag_def two_bundles_def
      two_fragments_def mk_bundle_def Let_def)

lemma addJmp_class:
  "is_DBLFragment (addJmp L F) = is_DBLFragment F"
  "(addJmp L F = AlignFragment) = (F = AlignFragment)"
  "is_FillFragment (addJmp L F) = is_FillFragment F"
  by (cases F; simp)+

lemma find_EndFrag_same_shape: "same_shape S T \<Longrightarrow> find_EndFrag S B = find_EndFrag T B"
  by (auto simp: same_shape_def find_EndFrag_def split: option.splits)

lemma same_shape_refl: "same_shape S S"
  by (simp add: same_shape_def)

lemma same_shape_trans: "same_shape S T \<Longrightarrow> same_shape T U \<Longrightarrow> same_shape S U"
  by (simp add: same_shape_def)

lemma bridge_stepD:
  assumes "bridge_step B (PL, S) = Inr (PL1, S1)"
  obtains e where "find_EndFrag S B = Inr e"
    and "PL1 = Some (TempSymbol (NextTemp S))"
    and "Frags S1 = (case PL of None \<Rightarrow> Frags S
                     | Some L \<Rightarrow> (Frags S)(e := addJmp L (Frags S e)))"
    and "NextTemp S1 = Suc (NextTemp S)"
    and "Symbols S1 = Symbols S @ [(TempSymbol (NextTemp S), BundleBegin B, 0)]"
    and "FragList S1 = FragList S"
  using assms
  by (auto simp: bridge_step_def Let_def split: sum.splits option.splits if_splits)

lemma bridge_step_shape:
  assumes "bridge_step B (PL, S) = Inr (PL1, S1)"
  shows "same_shape S S1"
proof -
  from assms obtain e where
    fr: "Frags S1 = (case PL of None \<Rightarrow> Frags S
                     | Some L \<Rightarrow> (Frags S)(e := addJmp L (Frags S e)))"
    and fl: "FragList S1 = FragList S"
    by (rule bridge_stepD)
  show ?thesis
    by (cases PL) (simp_all add: same_shape_def fr fl addJmp_class)
qed

lemma bridge_loop_effect:
  assumes "bridge_loop bs (PL, S) = Inr (PL', S')"
    and "distinct (map (find_EndFrag S) bs)"
  shows "same_shape S S' \<and>
     Symbols S' = Symbols S @
        map (\<lambda>(t, b). (TempSymbol t, BundleBegin b, 0)) (enumerate (NextTemp S) bs) \<and>
     (\<forall>j<length bs. \<exists>e. find_EndFrag S (bs ! j) = Inr e \<and>
        Frags S' e =
          (if j = 0 then (case PL of None \<Rightarrow> Frags S e | Some L \<Rightarrow> addJmp L (Frags S e))
           else addJmp (TempSymbol (NextTemp S + j - 1)) (Frags S e))) \<and>
     (\<forall>f. Inr f \<notin> find_EndFrag S ` set bs \<longrightarrow> Frags S' f = Frags S f)"
  using assms
proof (induction bs arbitrary: PL S)
  case Nil
  then show ?case by (simp add: same_shape_refl)
next
  case (Cons B rest)
  from Cons.prems(1) obtain PL1 S1 where
    step: "bridge_step B (PL, S) = Inr (PL1, S1)"
    and more: "bridge_loop rest (PL1, S1) = Inr (PL', S')"
    by (auto split: sum.splits)
  from step obtain e0 where e0: "find_EndFrag S B = Inr e0"
    and PL1: "PL1 = Some (TempSymbol (NextTemp S))"
    and fr1: "Frags S1 = (case PL of None \<Rightarrow> Frags S
                          | Some L \<Rightarrow> (Frags S)(e0 := addJmp L (Frags S e0)))"
    and nt1: "NextTemp S1 = Suc (NextTemp S)"
    and sy1: "Symbols S1 = Symbols S @ [(TempSymbol (NextTemp S), BundleBegin B, 0)]"
    by (rule bridge_stepD)
  have sh1: "same_shape S S1" using step by (rule bridge_step_shape)
  have fe: "find_EndFrag S1 b = find_EndFrag S b" for b
    using find_EndFrag_same_shape [OF sh1, of b] by simp
  have feq: "find_EndFrag S1 = find_EndFrag S"
    by (rule ext) (rule fe)
  have d: "distinct (map (find_EndFrag S1) rest)"
    using Cons.prems(2) unfolding feq by simp
  have e0_fresh: "Inr e0 \<notin> find_EndFrag S ` set rest"
    using Cons.prems(2) e0 by auto
  have fr1_e0: "Frags S1 e0 = (case PL of None \<Rightarrow> Frags S e0 | Some L \<Rightarrow> addJmp L (Frags S e0))"
    by (cases PL) (simp_all add: fr1)
  have fr1_other: "Frags S1 f = Frags S f" if "f \<noteq> e0" for f
    using that by (cases PL) (simp_all add: fr1)
  note ih = Cons.IH [OF more d, unfolded feq PL1 option.case]
  have sh: "same_shape S1 S'"
    and sy: "Symbols S' = Symbols S1 @
        map (\<lambda>(t, b). (TempSymbol t, BundleBegin b, 0)) (enumerate (NextTemp S1) rest)"
    and jm: "\<forall>j<length rest. \<exists>e. find_EndFrag S (rest ! j) = Inr e \<and>
        Frags S' e =
          (if j = 0 then addJmp (TempSymbol (NextTemp S)) (Frags S1 e)
           else addJmp (TempSymbol (NextTemp S1 + j - 1)) (Frags S1 e))"
    and un: "\<forall>f. Inr f \<notin> find_EndFrag S ` set rest \<longrightarrow> Frags S' f = Frags S1 f"
    using ih by blast+
  have c1: "same_shape S S'" using sh1 sh by (rule same_shape_trans)
  have c2: "Symbols S' = Symbols S @
        map (\<lambda>(t, b). (TempSymbol t, BundleBegin b, 0)) (enumerate (NextTemp S) (B # rest))"
    by (simp add: sy sy1 nt1)
  have c3: "\<exists>e. find_EndFrag S ((B # rest) ! j) = Inr e \<and>
        Frags S' e =
          (if j = 0 then (case PL of None \<Rightarrow> Frags S e | Some L \<Rightarrow> addJmp L (Frags S e))
           else addJmp (TempSymbol (NextTemp S + j - 1)) (Frags S e))"
    if j: "j < length (B # rest)" for j
  proof (cases j)
    case 0
    have "Frags S' e0 = Frags S1 e0" using un e0_fresh by simp
    then show ?thesis using 0 e0 fr1_e0 by simp
  next
    case (Suc j')
    then have j': "j' < length rest" using j by simp
    from jm j' obtain e where e: "find_EndFrag S (rest ! j') = Inr e"
      and fe': "Frags S' e =
          (if j' = 0 then addJmp (TempSymbol (NextTemp S)) (Frags S1 e)
           else addJmp (TempSymbol (NextTemp S1 + j' - 1)) (Frags S1 e))"
      by blast
    have "rest ! j' \<in> set rest" using j' by simp
    then have "e \<noteq> e0" using e e0_fresh by force
    then have "Frags S1 e = Frags S e" by (rule fr1_other)
    then have "Frags S' e = addJmp (TempSymbol (NextTemp S + j - 1)) (Frags S e)"
      using fe' Suc nt1 by (cases j') simp_all
    then show ?thesis using Suc e by simp
  qed
  have c4: "Frags S' f = Frags S f" if "Inr f \<notin> find_EndFrag S ` set (B # rest)" for f
  proof -
    have "f \<noteq> e0" using that e0 by auto
    moreover have "Inr f \<notin> find_EndFrag S ` set rest" using that by auto
    ultimately show ?thesis using un fr1_other by simp
  qed
  show ?case using c1 c2 c3 c4 by blast
qed

text \<open>
  C7, as claimed: every bundle but the first of the section gets a jump to the label of
  its successor, and the first bundle gets none. The loop runs from the last bundle to
  the first and hands each bundle the label of the bundle visited before it: of two
  bundles the first gets the jump, to the label at the head of the second, and the
  second, which has no successor, gets none.
\<close>

theorem first_bundle_gets_the_jump:
  "\<exists>S'. insert_bridge_jumps two_bundles two_fragments = Inr S' \<and>
     (TempSymbol 0, BundleBegin (two_bundles ! 1), 0) \<in> set (Symbols S') \<and>
     Jmps (Frags S' (BundleEnd (two_bundles ! 0))) = [TempSymbol 0] \<and>
     Jmps (Frags S' (BundleEnd (two_bundles ! 1))) = []"
  by (simp add: insert_bridge_jumps_def bridge_step_def find_EndFrag_def two_bundles_def
      two_fragments_def mk_bundle_def Let_def)

text \<open>
  C7, amended. When the insertion returns for bundles that end in different fragments:
  every bundle has a fresh label at offset 0 of its first fragment; every bundle but the
  \<^emph>\<open>last\<close> of the section has the jump to the label of its successor appended to its last
  \<open>MCDBLFragment\<close> (5 bytes, by \<open>addJmp\<close>); the last bundle's fragment is unchanged.
\<close>

theorem bridge_jumps_to_successor:
  assumes run: "insert_bridge_jumps Bundles S = Inr S'"
    and ends: "distinct (map (find_EndFrag S) Bundles)"
  shows "(\<forall>i<length Bundles.
            (TempSymbol (NextTemp S + (length Bundles - 1 - i)), BundleBegin (Bundles ! i), 0)
              \<in> set (Symbols S')) \<and>
         (\<forall>i. Suc i < length Bundles \<longrightarrow>
            (\<exists>e. find_EndFrag S (Bundles ! i) = Inr e \<and>
                 Frags S' e =
                   addJmp (TempSymbol (NextTemp S + (length Bundles - 1 - Suc i))) (Frags S e))) \<and>
         (Bundles \<noteq> [] \<longrightarrow>
            (\<exists>e. find_EndFrag S (last Bundles) = Inr e \<and> Frags S' e = Frags S e))"
proof -
  define bs where "bs = rev Bundles"
  define n where "n = length Bundles"
  from run obtain PL' where loop: "bridge_loop bs (None, S) = Inr (PL', S')"
    by (auto simp: insert_bridge_jumps_def bs_def split: sum.splits)
  have d: "distinct (map (find_EndFrag S) bs)"
    using ends by (simp add: bs_def rev_map [symmetric])
  have nth: "bs ! (n - 1 - i) = Bundles ! i" if "i < n" for i
    using that by (simp add: bs_def n_def rev_nth)
  have len: "length bs = n" by (simp add: bs_def n_def)
  note eff = bridge_loop_effect [OF loop d, unfolded option.case len]
  have sy: "Symbols S' = Symbols S @
        map (\<lambda>(t, b). (TempSymbol t, BundleBegin b, 0)) (enumerate (NextTemp S) bs)"
    and jm: "\<forall>j<n. \<exists>e. find_EndFrag S (bs ! j) = Inr e \<and>
        Frags S' e =
          (if j = 0 then Frags S e else addJmp (TempSymbol (NextTemp S + j - 1)) (Frags S e))"
    using eff by blast+
  have labels: "(TempSymbol (NextTemp S + (n - 1 - i)), BundleBegin (Bundles ! i), 0)
                  \<in> set (Symbols S')" if i: "i < n" for i
  proof -
    have "(NextTemp S + (n - 1 - i), bs ! (n - 1 - i)) \<in> set (enumerate (NextTemp S) bs)"
      using i by (auto simp: in_set_enumerate_eq len)
    then have "(TempSymbol (NextTemp S + (n - 1 - i)), BundleBegin (bs ! (n - 1 - i)), 0)
                 \<in> set (Symbols S')"
      unfolding sy by force
    then show ?thesis using nth [OF i] by simp
  qed
  have jumps: "\<exists>e. find_EndFrag S (Bundles ! i) = Inr e \<and>
                 Frags S' e = addJmp (TempSymbol (NextTemp S + (n - 1 - Suc i))) (Frags S e)"
    if i: "Suc i < n" for i
  proof -
    have j: "n - 1 - i < n" "n - 1 - i \<noteq> 0" using i by simp_all
    from jm [rule_format, OF j(1)] j(2)
    obtain e where "find_EndFrag S (bs ! (n - 1 - i)) = Inr e"
      and "Frags S' e = addJmp (TempSymbol (NextTemp S + (n - 1 - i) - 1)) (Frags S e)"
      by auto
    moreover have "NextTemp S + (n - 1 - i) - 1 = NextTemp S + (n - 1 - Suc i)"
      using i by simp
    moreover have "bs ! (n - 1 - i) = Bundles ! i" using i by (intro nth) simp
    ultimately show ?thesis by auto
  qed
  have lastb: "\<exists>e. find_EndFrag S (last Bundles) = Inr e \<and> Frags S' e = Frags S e"
    if ne: "Bundles \<noteq> []"
  proof -
    have n0: "0 < n" using ne by (simp add: n_def)
    have "bs ! 0 = last Bundles"
      using ne by (simp add: bs_def last_conv_nth rev_nth)
    with jm [rule_format, OF n0] show ?thesis by auto
  qed
  show ?thesis
    using labels jumps lastb unfolding n_def by blast
qed

theorem bridge_jumps_to_successor_witness:
  "\<exists>S'. insert_bridge_jumps two_bundles two_fragments = Inr S' \<and>
     distinct (map (find_EndFrag two_fragments) two_bundles) \<and>
     (TempSymbol 1, BundleBegin (two_bundles ! 0), 0) \<in> set (Symbols S') \<and>
     (TempSymbol 0, BundleBegin (two_bundles ! 1), 0) \<in> set (Symbols S') \<and>
     Frags S' 0 = addJmp (TempSymbol 0) (Frags two_fragments 0) \<and>
     Frags S' 1 = Frags two_fragments 1"
proof -
  from bridge_two_run obtain S' where run: "insert_bridge_jumps two_bundles two_fragments = Inr S'"
    by blast
  have ends: "distinct (map (find_EndFrag two_fragments) two_bundles)"
    by (simp add: find_EndFrag_def two_bundles_def two_fragments_def mk_bundle_def)
  have e0: "find_EndFrag two_fragments (two_bundles ! 0) = Inr 0"
    and e1: "find_EndFrag two_fragments (last two_bundles) = Inr 1"
    by (simp_all add: find_EndFrag_def two_bundles_def two_fragments_def mk_bundle_def)
  have len: "length two_bundles = 2" "two_bundles \<noteq> []"
    "NextTemp two_fragments = 0"
    by (simp_all add: two_bundles_def two_fragments_def)
  note t = bridge_jumps_to_successor [OF run ends]
  have l0: "(TempSymbol 1, BundleBegin (two_bundles ! 0), 0) \<in> set (Symbols S')"
    using t [THEN conjunct1, rule_format, of 0] len by simp
  have l1: "(TempSymbol 0, BundleBegin (two_bundles ! 1), 0) \<in> set (Symbols S')"
    using t [THEN conjunct1, rule_format, of 1] len by simp
  have j0: "Frags S' 0 = addJmp (TempSymbol 0) (Frags two_fragments 0)"
    using t [THEN conjunct2, THEN conjunct1, rule_format, of 0] len e0 by simp
  have j1: "Frags S' 1 = Frags two_fragments 1"
    using t [THEN conjunct2, THEN conjunct2] len e1 by simp
  show ?thesis using run ends l0 l1 j0 j1 by blast
qed

subsection \<open>The result map has one entry per placed block\<close>

lemma map_store_new:
  assumes "ascending R" and "map_count R k = 0"
  shows "ascending (map_store k v R) \<and> length (map_store k v R) = Suc (length R) \<and>
         fst ` set (map_store k v R) = insert k (fst ` set R)"
  using assms
proof (induction R)
  case Nil
  then show ?case by (simp add: ascending_def)
next
  case (Cons p R)
  obtain k' v' where p: "p = (k', v')" by (cases p)
  have k: "k \<noteq> k'" and cnt: "map_count R k = 0"
    using Cons.prems(2) p by (auto simp: map_count_def split: if_splits)
  have asc: "ascending R" and below: "\<forall>x\<in>fst ` set R. k' < x"
    using Cons.prems(1) p by (auto simp: ascending_def)
  show ?case
  proof (cases "k < k'")
    case True
    then show ?thesis
      using Cons.prems(1) p by (auto simp: ascending_def)
  next
    case False
    then have gt: "k' < k" using k by simp
    from Cons.IH [OF asc cnt]
    have ih: "ascending (map_store k v R)" "length (map_store k v R) = Suc (length R)"
      "fst ` set (map_store k v R) = insert k (fst ` set R)"
      by simp_all
    have "\<forall>x\<in>fst ` set (map_store k v R). k' < x"
      using ih(3) below gt by simp
    then have "ascending ((k', v') # map_store k v R)"
      using ih(1) by (auto simp: ascending_def)
    then show ?thesis
      using False k p ih(2,3) by auto
  qed
qed

lemma solveFF_dests_results:
  assumes "solveFF_dests Dist pairs FreeList R = Inr (FreeList', R')" and "ascending R"
  shows "ascending R' \<and> length R' = length R + 2 * length pairs"
  using assms
proof (induction pairs arbitrary: FreeList R)
  case Nil
  then show ?case by simp
next
  case (Cons pr pairs)
  from Cons.prems(1) obtain FreeList1 and N F :: Block where
    c1: "map_count R (SectionOffset N) = 0"
    and c2: "map_count (map_store (SectionOffset N) (new_Result (BundleIdx N)) R)
               (SectionOffset F) = 0"
    and more: "solveFF_dests Dist pairs FreeList1
                 (map_store (SectionOffset F) (new_Result (BundleIdx F))
                    (map_store (SectionOffset N) (new_Result (BundleIdx N)) R)) =
               Inr (FreeList', R')"
    by (auto simp: Let_def split: sum.splits prod.splits if_splits)
  note s1 = map_store_new [OF Cons.prems(2) c1, of "new_Result (BundleIdx N)"]
  note s2 = map_store_new [OF s1 [THEN conjunct1] c2, of "new_Result (BundleIdx F)"]
  from Cons.IH [OF more s2 [THEN conjunct1]] s1 s2 show ?case by simp
qed

lemma solveFF_target_results:
  assumes "solveFF_target PageSize VictimInfos Bundles RBO RB RS Block (FreeList, R, statics) =
             Inr (FreeList', R', statics')"
    and "ascending R"
  shows "ascending R' \<and> length R' = Suc (length R)"
proof -
  from assms(1) obtain k v where "map_count R k = 0" and "R' = map_store k v R"
    by (auto simp: solveFF_target_def solveFF_victim_def Let_def
        split: option.splits TargetKind.splits sum.splits prod.splits if_splits)
  then show ?thesis
    using map_store_new [OF assms(2), of k v] by simp
qed

lemma solveFF_targets_results:
  assumes "solveFF_targets PageSize VictimInfos Bundles RBO RB RS Blocks (FreeList, R, statics) =
             Inr (FreeList', R', statics')"
    and "ascending R"
  shows "ascending R' \<and> length R' = length R + length Blocks"
  using assms
proof (induction Blocks arbitrary: FreeList R statics)
  case Nil
  then show ?case by simp
next
  case (Cons Block rest)
  from Cons.prems(1) obtain FreeList1 R1 statics1 where
    one: "solveFF_target PageSize VictimInfos Bundles RBO RB RS Block (FreeList, R, statics) =
            Inr (FreeList1, R1, statics1)"
    and more: "solveFF_targets PageSize VictimInfos Bundles RBO RB RS rest
                 (FreeList1, R1, statics1) = Inr (FreeList', R', statics')"
    by (auto split: sum.splits)
  note s = solveFF_target_results [OF one Cons.prems(2)]
  from Cons.IH [OF more s [THEN conjunct1]] s show ?case by simp
qed

lemma solveFF_results:
  assumes "solveFF PageSize VictimInfos getBundleSize Bundles [] statics = Inr (R', statics')"
  shows "\<exists>split B Dist. solveFF_prepare getBundleSize Bundles = Inr (split, B, Dist) \<and>
           ascending R' \<and> length R' = 2 * length (TargetDests split) + length (Targets split)"
proof -
  from assms obtain split B Dist FreeList1 R1 FreeList2 where
    prep: "solveFF_prepare getBundleSize Bundles = Inr (split, B, Dist)"
    and d: "solveFF_dests Dist (TargetDests split) [(0, UINT64_MAX div 2)] [] = Inr (FreeList1, R1)"
    and t: "solveFF_targets PageSize VictimInfos Bundles (word_of_nat (B div 8))
              (word_of_nat (B mod 8)) True (Targets split) (FreeList1, R1, statics) =
            Inr (FreeList2, R', statics')"
    by (auto simp: solveFF_def solveFF_place_def Let_def split: sum.splits prod.splits)
  have "ascending []" by (simp add: ascending_def)
  note s1 = solveFF_dests_results [OF d this]
  note s2 = solveFF_targets_results [OF t s1 [THEN conjunct1]]
  show ?thesis using prep s1 s2 by simp
qed

subsection \<open>The rewrite loop: fill fragments and overlap\<close>


lemma set_list_insert: "set (list_insert xs p x) = insert x (set xs)"
proof -
  have "set (take p xs) \<union> set (drop p xs) = set xs"
    by (metis append_take_drop_id set_append)
  then show ?thesis by (auto simp: list_insert_def)
qed

lemma set_cut_out:
  assumes "i \<le> j"
  shows "set (take i fl @ drop j fl) \<union> set (take (j - i) (drop i fl)) = set fl"
proof -
  have "drop (j - i) (drop i fl) = drop j fl" using assms by simp
  then have "fl = take i fl @ take (j - i) (drop i fl) @ drop j fl"
    by (metis append_take_drop_id)
  then have "set fl = set (take i fl) \<union> set (take (j - i) (drop i fl)) \<union> set (drop j fl)"
    by (metis set_append Un_assoc)
  then show ?thesis by auto
qed

lemma set_put_back: "set (take p r @ T @ drop p r) = set r \<union> set T"
proof -
  have "set (take p r) \<union> set (drop p r) = set r"
    by (metis append_take_drop_id set_append)
  then show ?thesis by auto
qed




subsection \<open>The module pass\<close>

lemma instrument_test_module_Offsets:
  "instrumentModule Offsets test_module =
     [\<lparr>FnName = ''fn1'', FnArgs = 0, BasicBlocks = [[ReturnInst None]]\<rparr>,
      \<lparr>FnName = ''old_main'', FnArgs = 2, BasicBlocks = [[ReturnInst (Some 0)]]\<rparr>,
      \<lparr>FnName = ''main'', FnArgs = 2,
       BasicBlocks = [[CallInst ''do_the_thing'' [], CallInst ''old_main'' [0, 1],
                       ReturnInst (Some 0)]]\<rparr>,
      \<lparr>FnName = ''do_the_thing'', FnArgs = 0, BasicBlocks = [[ReturnInst None]]\<rparr>]"
  by (simp add: instrumentModule_def test_module_def getOrInsertFunction_def add_block_def
      createRHStub_def Let_def numeral_2_eq_2)

lemma names_setName:
  "FnName ` set (setName old new M) \<subseteq> insert new (FnName ` set M)"
  by (induction M) auto

lemma setName_removes:
  "distinct (map FnName M) \<Longrightarrow> new \<noteq> old \<Longrightarrow> old \<notin> FnName ` set (setName old new M)"
  by (induction M) (auto simp: image_iff)

lemma find_main:
  "name \<in> FnName ` set M \<Longrightarrow> \<exists>F. find (\<lambda>F. FnName F = name) M = Some F"
  by (induction M) auto

lemma find_no_main:
  "name \<notin> FnName ` set M \<Longrightarrow> find (\<lambda>F. FnName F = name) M = None"
  by (induction M) auto

lemma add_block_other:
  assumes "F \<in> set M" and "FnName F \<noteq> name"
  shows "F \<in> set (add_block name BB M)"
  unfolding add_block_def set_map
  by (rule image_eqI [where x = F]) (simp_all add: assms)

lemma add_block_fresh:
  assumes "\<lparr>FnName = name, FnArgs = a, BasicBlocks = []\<rparr> \<in> set M"
  shows "\<lparr>FnName = name, FnArgs = a, BasicBlocks = [BB]\<rparr> \<in> set (add_block name BB M)"
  unfolding add_block_def set_map
  by (rule image_eqI [where x = "\<lparr>FnName = name, FnArgs = a, BasicBlocks = []\<rparr>"])
     (simp_all add: assms)

lemma loader_stub_created:
  assumes main: "''main'' \<in> FnName ` set M" and fresh: "''do_the_thing'' \<notin> FnName ` set M"
  shows "\<lparr>FnName = ''do_the_thing'', FnArgs = 0, BasicBlocks = [[ReturnInst None]]\<rparr>
           \<in> set (instrumentModule Offsets M)"
    and "\<lparr>FnName = ''do_the_thing'', FnArgs = 0, BasicBlocks = []\<rparr>
           \<in> set (instrumentModule DBL M)"
proof -
  from find_main [OF main] obtain F where F: "find (\<lambda>F. FnName F = ''main'') M = Some F"
    by blast
  define M2 where "M2 = getOrInsertFunction ''main'' (FnArgs F) (setName ''main'' ''old_main'' M)"
  have "FnName ` set M2 \<subseteq> insert ''main'' (insert ''old_main'' (FnName ` set M))"
    using names_setName [of "''main''" "''old_main''" M]
    by (auto simp: M2_def getOrInsertFunction_def)
  then have fresh2: "''do_the_thing'' \<notin> FnName ` set M2"
    using fresh by auto
  then have M3: "getOrInsertFunction ''do_the_thing'' 0 M2 =
                   M2 @ [\<lparr>FnName = ''do_the_thing'', FnArgs = 0, BasicBlocks = []\<rparr>]"
    by (simp add: getOrInsertFunction_def)
  have decl: "\<lparr>FnName = ''do_the_thing'', FnArgs = 0, BasicBlocks = []\<rparr>
                \<in> set (getOrInsertFunction ''do_the_thing'' 0 M2)"
    by (simp add: M3)
  have stub: "\<lparr>FnName = ''do_the_thing'', FnArgs = 0, BasicBlocks = [[ReturnInst None]]\<rparr>
                \<in> set (createRHStub ''do_the_thing'' (getOrInsertFunction ''do_the_thing'' 0 M2))"
    unfolding createRHStub_def using decl by (rule add_block_fresh)
  show "\<lparr>FnName = ''do_the_thing'', FnArgs = 0, BasicBlocks = [[ReturnInst None]]\<rparr>
           \<in> set (instrumentModule Offsets M)"
    using add_block_other [OF stub, of "''main''"] F
    by (simp add: instrumentModule_def M2_def Let_def)
  show "\<lparr>FnName = ''do_the_thing'', FnArgs = 0, BasicBlocks = []\<rparr>
           \<in> set (instrumentModule DBL M)"
    using add_block_other [OF decl, of "''main''"] F
    by (simp add: instrumentModule_def M2_def Let_def)
qed

lemma new_main_created:
  assumes main: "''main'' \<in> FnName ` set M" and names: "distinct (map FnName M)"
    and mode: "DBLMode \<noteq> Baseline"
  shows "\<exists>args. \<lparr>FnName = ''main'', FnArgs = length args,
                  BasicBlocks = [[CallInst ''do_the_thing'' [], CallInst ''old_main'' args,
                                  ReturnInst (Some 0)]]\<rparr>
           \<in> set (instrumentModule DBLMode M)"
proof -
  from find_main [OF main] obtain F where F: "find (\<lambda>F. FnName F = ''main'') M = Some F"
    by blast
  define M1 where "M1 = setName ''main'' ''old_main'' M"
  define decl where "decl = \<lparr>FnName = ''main'', FnArgs = FnArgs F, BasicBlocks = []\<rparr>"
  have gone: "''main'' \<notin> FnName ` set M1"
    unfolding M1_def using names by (intro setName_removes) simp_all
  then have M2: "getOrInsertFunction ''main'' (FnArgs F) M1 = M1 @ [decl]"
    by (simp add: getOrInsertFunction_def decl_def)
  have in3: "decl \<in> set (getOrInsertFunction ''do_the_thing'' 0 (M1 @ [decl]))"
    by (simp add: getOrInsertFunction_def)
  have in4: "decl \<in> set (createRHStub ''do_the_thing''
                        (getOrInsertFunction ''do_the_thing'' 0 (M1 @ [decl])))"
    unfolding createRHStub_def by (rule add_block_other [OF in3]) (simp add: decl_def)
  have unfold: "instrumentModule DBLMode M =
      add_block ''main''
        [CallInst ''do_the_thing'' [], CallInst ''old_main'' [0..<FnArgs F], ReturnInst (Some 0)]
        (if DBLMode = Offsets
         then createRHStub ''do_the_thing'' (getOrInsertFunction ''do_the_thing'' 0 (M1 @ [decl]))
         else getOrInsertFunction ''do_the_thing'' 0 (M1 @ [decl]))"
    using F mode by (simp add: instrumentModule_def Let_def M1_def [symmetric] M2)
  have "\<lparr>FnName = ''main'', FnArgs = FnArgs F,
         BasicBlocks = [[CallInst ''do_the_thing'' [], CallInst ''old_main'' [0..<FnArgs F],
                         ReturnInst (Some 0)]]\<rparr> \<in> set (instrumentModule DBLMode M)"
  proof (cases "DBLMode = Offsets")
    case True
    show ?thesis
      unfolding unfold decl_def using True add_block_fresh [OF in4 [unfolded decl_def]] by simp
  next
    case False
    show ?thesis
      unfolding unfold decl_def using False add_block_fresh [OF in3 [unfolded decl_def]] by simp
  qed
  then have "\<lparr>FnName = ''main'', FnArgs = length [0..<FnArgs F],
         BasicBlocks = [[CallInst ''do_the_thing'' [], CallInst ''old_main'' [0..<FnArgs F],
                         ReturnInst (Some 0)]]\<rparr> \<in> set (instrumentModule DBLMode M)"
    by simp
  then show ?thesis by blast
qed

lemma instrumentModule_no_main:
  "''main'' \<notin> FnName ` set M \<Longrightarrow> instrumentModule DBLMode M = M"
  by (simp add: instrumentModule_def find_no_main)

subsection \<open>The rewrite loop as a whole\<close>

lemma index_of_le: "index_of fs f \<le> length fs"
  by (induction fs) auto

lemma position_le: "position fs it \<le> length fs"
  by (cases it) (simp_all add: position_def index_of_le)

lemma length_list_insert: "length (list_insert xs p x) = Suc (length xs)"
  by (simp add: list_insert_def)

lemma length_moved:
  assumes "i \<le> j" and "j \<le> length fl"
  shows "length (moved fl i j p) = length fl"
proof -
  have "length (take p r @ T @ drop p r) = length r + length T" for r T :: "nat list"
    by simp
  then show ?thesis using assms by (simp add: moved_def)
qed

lemma set_moved:
  assumes "i \<le> j"
  shows "set (moved fl i j p) = set fl"
  unfolding moved_def using set_cut_out [OF assms, of fl] by (simp only: set_put_back)

lemma rewrite_step_moved:
  "rewrite_step g Bs Pr (S, SwapSpot, LastEnd) =
     (if \<not> ResBundleIdx (snd Pr) < length Bs then Inl Index_out_of_range
      else if BundleEnd (Bs ! ResBundleIdx (snd Pr)) \<notin> set (FragList S)
      then Inl Iterator_out_of_range
      else if \<not> 0 \<le> sint (fst Pr - LastEnd) then Inl Assert_Fill_nonneg
      else
        let fl = list_insert (FragList S) (position (FragList S) SwapSpot) (NextFrag S);
            S2 = S\<lparr>Frags := (Frags S)(NextFrag S := FillFragment 0xcc 1 (sint (fst Pr - LastEnd))),
                   NextFrag := Suc (NextFrag S),
                   FragList := fl,
                   Symbols := set_symbol (padding_before_bundle (ResBundleIdx (snd Pr)))
                                (NextFrag S) 0 (Symbols S)\<rparr>;
            LastEnd' = LastEnd + (fst Pr - LastEnd) + g (Bs ! ResBundleIdx (snd Pr));
            i = index_of fl (BundleBegin (Bs ! ResBundleIdx (snd Pr)));
            j = position fl (next_frag (FragList S) (BundleEnd (Bs ! ResBundleIdx (snd Pr))))
        in
        if SwapSpot \<noteq> Some (BundleBegin (Bs ! ResBundleIdx (snd Pr))) then
          if BundleBegin (Bs ! ResBundleIdx (snd Pr)) \<notin> set fl \<or> j < i
          then Inl Iterator_out_of_range
          else if SwapSpot \<in> Some ` set (take (j - i) (drop i fl))
          then Inl Iterator_out_of_range
          else Inr (S2\<lparr>FragList := moved fl i j (position (take i fl @ drop j fl) SwapSpot)\<rparr>,
                    SwapSpot, LastEnd')
        else Inr (S2, next_frag (FragList S) (BundleEnd (Bs ! ResBundleIdx (snd Pr))), LastEnd'))"
  by (simp add: rewrite_step_def moved_def Let_def)

lemma rewrite_stepD:
  assumes "rewrite_step g Bs (off, Res) (S, SwapSpot, LastEnd) = Inr (S', SwapSpot', LastEnd')"
  shows "NextFrag S' = Suc (NextFrag S)"
    and "Frags S' = (Frags S)(NextFrag S := FillFragment 0xcc 1 (sint (off - LastEnd)))"
    and "0 \<le> sint (off - LastEnd)"
    and "LastEnd' = off + g (Bs ! ResBundleIdx Res)"
    and "length (FragList S') = Suc (length (FragList S))"
    and "set (FragList S') = insert (NextFrag S) (set (FragList S))"
    and "ResBundleIdx Res < length Bs"
proof -
  define fl where "fl = list_insert (FragList S) (position (FragList S) SwapSpot) (NextFrag S)"
  have len: "length fl = Suc (length (FragList S))"
    by (simp add: fl_def length_list_insert)
  have st: "set fl = insert (NextFrag S) (set (FragList S))"
    by (simp add: fl_def set_list_insert)
  have mv_len: "length (moved fl i (position fl it) p) = Suc (length (FragList S))"
    if "i \<le> position fl it" for i it p
    using length_moved [OF that position_le, of p] len by simp
  have mv_set: "set (moved fl i j p) = insert (NextFrag S) (set (FragList S))"
    if "i \<le> j" for i j p
    using set_moved [OF that, of fl p] st by simp
  note run = assms [unfolded rewrite_step_moved fst_conv snd_conv]
  from run show "NextFrag S' = Suc (NextFrag S)"
    by (auto simp: Let_def split: if_splits)
  from run show "Frags S' = (Frags S)(NextFrag S := FillFragment 0xcc 1 (sint (off - LastEnd)))"
    by (auto simp: Let_def split: if_splits)
  from run show "0 \<le> sint (off - LastEnd)"
    by (auto simp: Let_def split: if_splits)
  from run show "LastEnd' = off + g (Bs ! ResBundleIdx Res)"
    by (auto simp: Let_def split: if_splits)
  from run show "ResBundleIdx Res < length Bs"
    by (auto simp: Let_def split: if_splits)
  from run len mv_len show "length (FragList S') = Suc (length (FragList S))"
    by (auto simp: Let_def fl_def [symmetric] not_less split: if_splits)
  from run st mv_set show "set (FragList S') = insert (NextFrag S) (set (FragList S))"
    by (auto simp: Let_def fl_def [symmetric] not_less split: if_splits)
qed

lemma rewrite_loop_fills:
  assumes "rewrite_loop g Bs R (S, SwapSpot, LastEnd) = Inr (S', SwapSpot', LastEnd')"
  shows "NextFrag S' = NextFrag S + length R \<and>
         length (FragList S') = length (FragList S) + length R \<and>
         set (FragList S') = set (FragList S) \<union> {NextFrag S ..< NextFrag S + length R} \<and>
         (\<forall>i<length R.
            Frags S' (NextFrag S + i) = FillFragment 0xcc 1 (expected_fills g Bs LastEnd R ! i) \<and>
            0 \<le> expected_fills g Bs LastEnd R ! i \<and> ResBundleIdx (snd (R ! i)) < length Bs) \<and>
         (\<forall>f<NextFrag S. Frags S' f = Frags S f)"
  using assms
proof (induction R arbitrary: S SwapSpot LastEnd)
  case Nil
  then show ?case by simp
next
  case (Cons Pr rest)
  obtain off Res where Pr: "Pr = (off, Res)" by (cases Pr)
  from Cons.prems obtain S1 Sw1 LE1 where
    step: "rewrite_step g Bs (off, Res) (S, SwapSpot, LastEnd) = Inr (S1, Sw1, LE1)"
    and rest: "rewrite_loop g Bs rest (S1, Sw1, LE1) = Inr (S', SwapSpot', LastEnd')"
    by (auto simp: Pr split: sum.splits)
  note d = rewrite_stepD [OF step]
  note ih = Cons.IH [OF rest]
  have n: "NextFrag S' = NextFrag S + length (Pr # rest)"
    using ih d(1) by simp
  have l: "length (FragList S') = length (FragList S) + length (Pr # rest)"
    using ih d(5) by simp
  have s: "set (FragList S') =
             set (FragList S) \<union> {NextFrag S ..< NextFrag S + length (Pr # rest)}"
    using ih d(1,6) by auto
  have old: "Frags S' f = Frags S f" if "f < NextFrag S" for f
  proof -
    have "Frags S' f = Frags S1 f" using ih that d(1) by simp
    then show ?thesis using that by (simp add: d(2))
  qed
  have fills: "Frags S' (NextFrag S + i) =
                 FillFragment 0xcc 1 (expected_fills g Bs LastEnd (Pr # rest) ! i) \<and>
               0 \<le> expected_fills g Bs LastEnd (Pr # rest) ! i \<and>
               ResBundleIdx (snd ((Pr # rest) ! i)) < length Bs"
    if i: "i < length (Pr # rest)" for i
  proof (cases i)
    case 0
    have "Frags S' (NextFrag S) = Frags S1 (NextFrag S)" using ih d(1) by simp
    then show ?thesis using 0 d(2,3,7) by (simp add: Pr)
  next
    case (Suc k)
    then have k: "k < length rest" using i by simp
    from ih k have "Frags S' (NextFrag S1 + k) =
                      FillFragment 0xcc 1 (expected_fills g Bs LE1 rest ! k) \<and>
                    0 \<le> expected_fills g Bs LE1 rest ! k \<and>
                    ResBundleIdx (snd (rest ! k)) < length Bs"
      by blast
    then show ?thesis using Suc d(1,4) by (simp add: Pr)
  qed
  show ?case using n l s old fills by blast
qed

lemma rewrite_section_fills:
  assumes "rewrite_section g Bs R S = Inr S'"
  shows "length (FragList S') = length (FragList S) + length R \<and>
         (\<forall>i<length R.
            NextFrag S + i \<in> set (FragList S') \<and>
            Frags S' (NextFrag S + i) = FillFragment 0xcc 1 (expected_fills g Bs 0 R ! i) \<and>
            0 \<le> expected_fills g Bs 0 R ! i)"
proof -
  from assms obtain Sw LE where
    "rewrite_loop g Bs R (S, (case FragList S of [] \<Rightarrow> None | f # fs \<Rightarrow> Some f), 0) =
       Inr (S', Sw, LE)"
    by (auto simp: rewrite_section_def split: sum.splits)
  from rewrite_loop_fills [OF this] show ?thesis by auto
qed




subsection \<open>Where a run of \<open>Finish\<close> can end\<close>





lemma readConfig_keeps:
  assumes "readConfig A = Inr A1"
  shows "TextSec A1 = TextSec A" "Mode A1 = Mode A" "FragTargetSpec A1 = FragTargetSpec A"
    "computeFragmentSize A1 = computeFragmentSize A" "asm_getBundleSize A1 = asm_getBundleSize A"
    "asm_PageSize A1 = asm_PageSize A" "TextSecName A1 = TextSecName A"
    "HostAborts A1 = HostAborts A"
  using assms by (auto simp: readConfig_def Let_def split: option.splits sum.splits)

lemma writeFragment_keeps:
  "TextSec (writeFragment A F off) = TextSec A"
  "Mode (writeFragment A F off) = Mode A"
  "computeFragmentSize (writeFragment A F off) = computeFragmentSize A"
  "asm_getBundleSize (writeFragment A F off) = asm_getBundleSize A"
  "asm_PageSize (writeFragment A F off) = asm_PageSize A"
  "asm_VictimInfos (writeFragment A F off) = asm_VictimInfos A"
  "TextSecName (writeFragment A F off) = TextSecName A"
  "HostAborts (writeFragment A F off) = HostAborts A"
  by (simp_all add: writeFragment_def split: option.splits list.splits)

lemma writeSectionData_keeps:
  "TextSec (writeSectionData Fs off A) = TextSec A \<and>
   Mode (writeSectionData Fs off A) = Mode A \<and>
   computeFragmentSize (writeSectionData Fs off A) = computeFragmentSize A \<and>
   asm_getBundleSize (writeSectionData Fs off A) = asm_getBundleSize A \<and>
   asm_PageSize (writeSectionData Fs off A) = asm_PageSize A \<and>
   asm_VictimInfos (writeSectionData Fs off A) = asm_VictimInfos A \<and>
   TextSecName (writeSectionData Fs off A) = TextSecName A \<and>
   HostAborts (writeSectionData Fs off A) = HostAborts A"
  by (induction Fs arbitrary: off A) (simp_all add: writeFragment_keeps)











subsection \<open>What a run of \<open>Finish\<close> in dbl mode has done\<close>

lemma Finish_DBL_run:
  assumes mode: "Mode A = DBL" and run: "Finish A statics = (written, None)"
  shows "\<exists>A1 A2 Bundles S1 R statics' S2 rows.
           readConfig A = Inr A1 \<and>
           A2 = writeSectionData (FragList (TextSec A)) 0 A1 \<and>
           list_all (\<lambda>Pair. snd Pair = []) (TargetsToFindForSection A2) \<and>
           form_bundles (TextSec A) (FragTargetSpec A2) = Inr Bundles \<and>
           Bundles \<noteq> [] \<and> [BundleBegin (hd Bundles)] = take 1 (FragList (TextSec A)) \<and>
           insert_bridge_jumps Bundles (TextSec A) = Inr S1 \<and>
           solveFF (asm_PageSize A) (asm_VictimInfos A1) (asm_getBundleSize A) Bundles []
             statics = Inr (R, statics') \<and>
           rewrite_section (asm_getBundleSize A) Bundles R S1 = Inr S2 \<and>
           output_rows (asm_VictimInfos A1) R = (rows, None) \<and>
           written = [Object (section_contents (TextSec A)), Writer_reset, Files_opened] @
                     map Row rows @ [Files_closed, Object (section_contents S2)]"
proof -
  from run mode obtain A1 where cfg: "readConfig A = Inr A1"
    by (auto simp: Finish_def split: if_splits sum.splits)
  define A2 where "A2 = writeSectionData (FragList (TextSec A)) 0 A1"
  note k1 = readConfig_keeps [OF cfg]
  note k2 = writeSectionData_keeps [of "FragList (TextSec A)" 0 A1, folded A2_def, unfolded k1]
  have vi: "asm_VictimInfos A2 = asm_VictimInfos A1" using k2 by simp
  from run mode cfg obtain tail res where
    left: "list_all (\<lambda>Pair. snd Pair = []) (TargetsToFindForSection A2)"
    and r2: "layout_round2 A2 statics = (tail, Inr res)"
    and w: "written = [Object (section_contents (TextSec A)), Writer_reset] @ tail @
                        [Object (section_contents (fst res))]"
    by (auto simp: Finish_def Let_def k1 A2_def [symmetric]
        split: if_splits sum.splits prod.splits)
  from r2 show ?thesis
    unfolding layout_round2_def
    using cfg left w k2 vi
    by (auto simp: A2_def [symmetric] split: sum.splits option.splits if_splits prod.splits)
qed

lemma Finish_single_round:
  assumes "\<not> BundlingEnabled A" and "Mode A \<noteq> DBL"
    and "\<not> HostAborts A (Host_layout 1)" and "\<not> HostAborts A (Host_fixups 1)"
    and "\<not> HostAborts A (Host_writeObject 1)"
  shows "Finish A statics = ([Object (section_contents (TextSec A))], None)"
  using assms by (simp add: Finish_def)

lemma Finish_targets_left:
  assumes "\<not> BundlingEnabled A" and "Mode A = DBL"
    and "TargetOffsetsPath A \<noteq> []" and "VictimAddressesPath A \<noteq> []"
    and "CompilerOutputPath A \<noteq> []"
    and "\<not> HostAborts A (Host_layout 1)" and "\<not> HostAborts A (Host_fixups 1)"
    and "\<not> HostAborts A (Host_writeObject 1)"
    and "readConfig A = Inr A1"
    and "\<not> list_all (\<lambda>Pair. snd Pair = [])
             (TargetsToFindForSection (writeSectionData (FragList (TextSec A)) 0 A1))"
  shows "Finish A statics = ([Object (section_contents (TextSec A))], Some Assert_targets_found)"
  using assms by (simp add: Finish_def Let_def readConfig_keeps)

subsection \<open>The bundles that round 2 forms\<close>

lemma cut_bundles_begins:
  "cut_bundles Fr Sp Fs E (Bs, M) = Inr (Bs', M') \<Longrightarrow>
     map BundleBegin Bs' =
       map BundleBegin Bs @ filter (\<lambda>f. Fr f \<noteq> AlignFragment \<and> Sp f \<noteq> None) Fs"
proof (induction Fs arbitrary: E Bs M)
  case Nil
  then show ?case by simp
next
  case (Cons F rest)
  then show ?case
    by (auto simp: Let_def split: if_splits option.splits)
qed

lemma convert_dest_begins:
  "convert_dest M n B = Inr B' \<Longrightarrow> BundleBegin B' = BundleBegin B \<and> BundleEnd B' = BundleEnd B"
  by (auto simp: convert_dest_def split: TargetKind.splits option.splits)

lemma convert_dests_begins:
  "convert_dests M n Bs = Inr Bs' \<Longrightarrow>
     map BundleBegin Bs' = map BundleBegin Bs \<and> map BundleEnd Bs' = map BundleEnd Bs"
  by (induction Bs arbitrary: Bs') (auto split: sum.splits dest: convert_dest_begins)

lemma form_bundles_begins:
  assumes "form_bundles S Sp = Inr Bundles"
  shows "map BundleBegin Bundles =
           filter (\<lambda>f. Frags S f \<noteq> AlignFragment \<and> Sp f \<noteq> None) (FragList S)"
proof -
  from assms obtain Bs M where
    cut: "cut_bundles (Frags S) Sp (rev (FragList S))
            (case rev (FragList S) of [] \<Rightarrow> None | F # others \<Rightarrow> Some F) ([], Map.empty) =
          Inr (Bs, M)"
    and conv: "convert_dests M (length Bs) (rev Bs) = Inr Bundles"
    by (auto simp: form_bundles_def split: sum.splits prod.splits)
  have "map BundleBegin Bundles = rev (map BundleBegin Bs)"
    using convert_dests_begins [OF conv] by (simp add: rev_map)
  also have "\<dots> = rev (filter (\<lambda>f. Frags S f \<noteq> AlignFragment \<and> Sp f \<noteq> None) (rev (FragList S)))"
    using cut_bundles_begins [OF cut] by simp
  finally show ?thesis by (simp add: rev_filter)
qed

subsection \<open>The jump of the first bundle\<close>

lemma find_EndFrag_DBL: "find_EndFrag S B = Inr e \<Longrightarrow> is_DBLFragment (Frags S e)"
  by (auto simp: find_EndFrag_def split: if_splits option.splits)

lemma bridge_loop_append:
  "bridge_loop (xs @ ys) st =
     (case bridge_loop xs st of Inl e \<Rightarrow> Inl e | Inr st' \<Rightarrow> bridge_loop ys st')"
  by (induction xs arbitrary: st) (auto split: sum.splits)

lemma bridge_loop_shape:
  "bridge_loop bs (PL, S) = Inr (PL', S') \<Longrightarrow> same_shape S S'"
proof (induction bs arbitrary: PL S)
  case Nil
  then show ?case by (simp add: same_shape_refl)
next
  case (Cons B rest)
  from Cons.prems obtain PL1 S1 where
    step: "bridge_step B (PL, S) = Inr (PL1, S1)"
    and more: "bridge_loop rest (PL1, S1) = Inr (PL', S')"
    by (auto split: sum.splits)
  show ?case
    using bridge_step_shape [OF step] Cons.IH [OF more] by (rule same_shape_trans)
qed

lemma Jmps_addJmp: "is_DBLFragment F \<Longrightarrow> Jmps (addJmp L F) = Jmps F @ [L]"
  by (cases F) simp_all

lemma first_bundle_jump:
  assumes run: "insert_bridge_jumps (B0 # B1 # rest) S = Inr S'"
  shows "\<exists>e L. find_EndFrag S B0 = Inr e \<and> is_DBLFragment (Frags S' e) \<and>
           Jmps (Frags S' e) \<noteq> [] \<and> last (Jmps (Frags S' e)) = L \<and>
           (L, BundleBegin B1, 0) \<in> set (Symbols S')"
proof -
  from run obtain PL' where
    loop: "bridge_loop (rev rest @ [B1, B0]) (None, S) = Inr (PL', S')"
    by (auto simp: insert_bridge_jumps_def split: sum.splits)
  from loop obtain PL2 S2 where
    l2: "bridge_loop (rev rest) (None, S) = Inr (PL2, S2)"
    and l3: "bridge_loop [B1, B0] (PL2, S2) = Inr (PL', S')"
    unfolding bridge_loop_append by (auto split: sum.splits)
  from l3 obtain PL3 S3 where
    s1: "bridge_step B1 (PL2, S2) = Inr (PL3, S3)"
    and s0: "bridge_step B0 (PL3, S3) = Inr (PL', S')"
    by (auto split: sum.splits)
  from s1 have PL3: "PL3 = Some (TempSymbol (NextTemp S2))"
    and sy3: "Symbols S3 = Symbols S2 @ [(TempSymbol (NextTemp S2), BundleBegin B1, 0)]"
    by (auto elim: bridge_stepD)
  from s0 obtain e where e: "find_EndFrag S3 B0 = Inr e"
    and fr: "Frags S' = (case PL3 of None \<Rightarrow> Frags S3
                         | Some L \<Rightarrow> (Frags S3)(e := addJmp L (Frags S3 e)))"
    and sy: "Symbols S' = Symbols S3 @ [(TempSymbol (NextTemp S3), BundleBegin B0, 0)]"
    by (auto elim: bridge_stepD)
  have sh: "same_shape S S3"
    using bridge_loop_shape [OF l2] bridge_step_shape [OF s1] by (rule same_shape_trans)
  have e0: "find_EndFrag S B0 = Inr e"
    using find_EndFrag_same_shape [OF sh, of B0] e by simp
  have dbl: "is_DBLFragment (Frags S3 e)" using e by (rule find_EndFrag_DBL)
  have fe: "Frags S' e = addJmp (TempSymbol (NextTemp S2)) (Frags S3 e)"
    by (simp add: fr PL3)
  have "Jmps (Frags S' e) = Jmps (Frags S3 e) @ [TempSymbol (NextTemp S2)]"
    unfolding fe using dbl by (rule Jmps_addJmp)
  moreover have "is_DBLFragment (Frags S' e)"
    unfolding fe using dbl by (simp add: addJmp_class)
  moreover have "(TempSymbol (NextTemp S2), BundleBegin B1, 0) \<in> set (Symbols S')"
    by (simp add: sy sy3)
  ultimately show ?thesis using e0 by auto
qed

subsection \<open>The run on the test assembler\<close>

lemma dbl_readConfig_run:
  "readConfig dbl_assembler =
     Inr (dbl_assembler
            \<lparr>TargetsToFindForSection :=
               [(''.dbl_text'', [new_spec 0x120 (TargetFixed 3 True), new_spec 0x200 TargetNone])],
             asm_VictimInfos :=
               [[(victim 0x4140 3 True)\<lparr>Aggrs := [0x3000, 0x5000], AggrInit := 0xFF\<rparr>]]\<rparr>)"
  by (simp add: readConfig_def dbl_assembler_def group_victims_def new_spec_def victim_def)

lemma dbl_solveFF_run:
  "solveFF 4096 [[(victim 0x4140 3 True)\<lparr>Aggrs := [0x3000, 0x5000], AggrInit := 0xFF\<rparr>]]
       (\<lambda>B. if BundleBegin B = 0 then 0x205 else 0x10) dbl_bundles [] initial_statics =
     Inr (dbl_results, \<lparr>static_Used = {4}, static_Page2Frame = [0 \<mapsto> 4]\<rparr>)"
  by (simp add: solver_eval dbl_bundles_def dbl_results_def initial_statics_def victim_def
      new_Result_def)

lemma dbl_matching_run:
  "writeSectionData (FragList (TextSec dbl_assembler)) 0
     (dbl_assembler
        \<lparr>TargetsToFindForSection :=
           [(''.dbl_text'', [new_spec 0x120 (TargetFixed 3 True), new_spec 0x200 TargetNone])],
         asm_VictimInfos :=
           [[(victim 0x4140 3 True)\<lparr>Aggrs := [0x3000, 0x5000], AggrInit := 0xFF\<rparr>]]\<rparr>) =
   dbl_assembler
     \<lparr>TargetsToFindForSection := [(''.dbl_text'', [])],
      asm_VictimInfos :=
        [[(victim 0x4140 3 True)\<lparr>Aggrs := [0x3000, 0x5000], AggrInit := 0xFF\<rparr>]],
      FragTargetSpec :=
        [0 \<mapsto> \<lparr>TargetOffsetInOutput = 0x120, Kind = TargetFixed 3 True,
                 TargetOffsetInFragment = 0x120\<rparr>,
         1 \<mapsto> \<lparr>TargetOffsetInOutput = 0x200, Kind = TargetNone,
                 TargetOffsetInFragment = 0\<rparr>]\<rparr>"
  by (simp add: dbl_assembler_def writeFragment_def match_target_def isTarget_def new_spec_def)

lemma dbl_form_bundles_run:
  "form_bundles (TextSec dbl_assembler)
     [0 \<mapsto> \<lparr>TargetOffsetInOutput = 0x120, Kind = TargetFixed 3 True,
              TargetOffsetInFragment = 0x120\<rparr>,
      1 \<mapsto> \<lparr>TargetOffsetInOutput = 0x200, Kind = TargetNone,
              TargetOffsetInFragment = 0\<rparr>] = Inr dbl_bundles"
  by (simp add: form_bundles_def dbl_assembler_def dbl_bundles_def convert_dest_def Let_def)

lemma dbl_rewrite_run:
  "\<exists>S1 S2. insert_bridge_jumps dbl_bundles (TextSec dbl_assembler) = Inr S1 \<and>
     rewrite_section (\<lambda>B. if BundleBegin B = 0 then 0x205 else 0x10) dbl_bundles dbl_results S1 =
       Inr S2 \<and>
     printSectionLayout (Frags S2) dbl_bundles None (FragList S2) = None \<and>
     section_contents S2 =
       [FillFragment 0xcc 1 0, DBLFragment 0x10 [], FillFragment 0xcc 1 0x10,
        DBLFragment 0x205 [TempSymbol 0]]"
  by (simp add: insert_bridge_jumps_def bridge_step_def find_EndFrag_def dbl_bundles_def
      dbl_assembler_def dbl_results_def new_Result_def Let_def rewrite_section_def
      rewrite_step_def next_frag_def position_def list_insert_def set_symbol_def
      section_contents_def)

lemma dbl_Finish_run:
  "Finish dbl_assembler initial_statics =
     ([Object [DBLFragment 0x200 [], DBLFragment 0x10 []], Writer_reset, Files_opened,
       Row \<lparr>RowVictimPageOffset = 0x140, RowVictimAddr = 0x4140, RowBit = 3, RowSign = True,
            RowAggrs = [0x3000, 0x5000], RowAggrInit = 0xFF\<rparr>,
       Files_closed,
       Object [FillFragment 0xcc 1 0, DBLFragment 0x10 [], FillFragment 0xcc 1 0x10,
               DBLFragment 0x205 [TempSymbol 0]]], None)"
proof -
  define A2 where "A2 = dbl_assembler
     \<lparr>TargetsToFindForSection := [(''.dbl_text'', [])],
      asm_VictimInfos :=
        [[(victim 0x4140 3 True)\<lparr>Aggrs := [0x3000, 0x5000], AggrInit := 0xFF\<rparr>]],
      FragTargetSpec :=
        [0 \<mapsto> \<lparr>TargetOffsetInOutput = 0x120, Kind = TargetFixed 3 True,
                 TargetOffsetInFragment = 0x120\<rparr>,
         1 \<mapsto> \<lparr>TargetOffsetInOutput = 0x200, Kind = TargetNone,
                 TargetOffsetInFragment = 0\<rparr>]\<rparr>"
  from dbl_rewrite_run obtain S1 S2 where
    j: "insert_bridge_jumps dbl_bundles (TextSec dbl_assembler) = Inr S1"
    and r: "rewrite_section (\<lambda>B. if BundleBegin B = 0 then 0x205 else 0x10) dbl_bundles
              dbl_results S1 = Inr S2"
    and p: "printSectionLayout (Frags S2) dbl_bundles None (FragList S2) = None"
    and c: "section_contents S2 =
       [FillFragment 0xcc 1 0, DBLFragment 0x10 [], FillFragment 0xcc 1 0x10,
        DBLFragment 0x205 [TempSymbol 0]]"
    by blast
  have sel: "TextSec A2 = TextSec dbl_assembler"
    "FragTargetSpec A2 =
        [0 \<mapsto> \<lparr>TargetOffsetInOutput = 0x120, Kind = TargetFixed 3 True,
                 TargetOffsetInFragment = 0x120\<rparr>,
         1 \<mapsto> \<lparr>TargetOffsetInOutput = 0x200, Kind = TargetNone,
                 TargetOffsetInFragment = 0\<rparr>]"
    "asm_PageSize A2 = 4096"
    "asm_VictimInfos A2 =
       [[(victim 0x4140 3 True)\<lparr>Aggrs := [0x3000, 0x5000], AggrInit := 0xFF\<rparr>]]"
    "asm_getBundleSize A2 = (\<lambda>B. if BundleBegin B = 0 then 0x205 else 0x10)"
    "HostAborts A2 = (\<lambda>step. False)"
    "TargetsToFindForSection A2 = [(''.dbl_text'', [])]"
    by (simp_all add: A2_def dbl_assembler_def)
  have p0: "printSectionLayout (Frags (TextSec dbl_assembler)) dbl_bundles None
              (FragList (TextSec dbl_assembler)) = None"
    by (simp add: dbl_assembler_def dbl_bundles_def)
  have b0: "dbl_bundles \<noteq> []"
    "[BundleBegin (hd dbl_bundles)] = take 1 (FragList (TextSec dbl_assembler))"
    by (simp_all add: dbl_bundles_def dbl_assembler_def)
  have rows: "output_rows
        [[(victim 0x4140 3 True)\<lparr>Aggrs := [0x3000, 0x5000], AggrInit := 0xFF\<rparr>]] dbl_results =
      ([\<lparr>RowVictimPageOffset = 0x140, RowVictimAddr = 0x4140, RowBit = 3, RowSign = True,
            RowAggrs = [0x3000, 0x5000], RowAggrInit = 0xFF\<rparr>], None)"
    by (simp add: dbl_results_def new_Result_def victim_def)
  have round2: "layout_round2 A2 initial_statics =
      ([Files_opened,
        Row \<lparr>RowVictimPageOffset = 0x140, RowVictimAddr = 0x4140, RowBit = 3, RowSign = True,
            RowAggrs = [0x3000, 0x5000], RowAggrInit = 0xFF\<rparr>,
        Files_closed],
       Inr (S2, dbl_results, \<lparr>static_Used = {4}, static_Page2Frame = [0 \<mapsto> 4]\<rparr>))"
    unfolding layout_round2_def sel dbl_form_bundles_run sum.case p0 option.case
    using b0 by (simp add: j dbl_solveFF_run r p rows)
  have first: "section_contents (TextSec dbl_assembler) = [DBLFragment 0x200 [], DBLFragment 0x10 []]"
    by (simp add: section_contents_def dbl_assembler_def)
  define A1 where "A1 = dbl_assembler
        \<lparr>TargetsToFindForSection :=
           [(''.dbl_text'', [new_spec 0x120 (TargetFixed 3 True), new_spec 0x200 TargetNone])],
         asm_VictimInfos :=
           [[(victim 0x4140 3 True)\<lparr>Aggrs := [0x3000, 0x5000], AggrInit := 0xFF\<rparr>]]\<rparr>"
  have cfg: "readConfig dbl_assembler = Inr A1"
    unfolding A1_def by (rule dbl_readConfig_run)
  have ts1: "TextSec A1 = TextSec dbl_assembler"
    by (simp add: A1_def)
  have wsd: "writeSectionData (FragList (TextSec dbl_assembler)) 0 A1 = A2"
    unfolding A1_def A2_def by (rule dbl_matching_run)
  have opts: "\<not> BundlingEnabled dbl_assembler" "Mode dbl_assembler = DBL"
    "TargetOffsetsPath dbl_assembler \<noteq> []" "VictimAddressesPath dbl_assembler \<noteq> []"
    "CompilerOutputPath dbl_assembler \<noteq> []" "HostAborts dbl_assembler = (\<lambda>step. False)"
    by (simp_all add: dbl_assembler_def)
  show ?thesis
    unfolding Finish_def
    using opts
    by (simp add: cfg ts1 wsd sel(7) round2 first c)
qed



lemma unmatched_Finish_run:
  "Finish (dbl_assembler\<lparr>TargetOffsetsFile :=
             Some [(''.dbl_text'', [Entry_fixed 0x300 3 True])]\<rparr>) initial_statics =
     ([Object [DBLFragment 0x200 [], DBLFragment 0x10 []]], Some Assert_targets_found)"
  by (simp add: Finish_def readConfig_def dbl_assembler_def group_victims_def new_spec_def
      victim_def writeFragment_def match_target_def isTarget_def section_contents_def Let_def)

subsection \<open>The rewrite loop and its error path\<close>







subsection \<open>The modes\<close>

lemma setName_renames:
  "find (\<lambda>F. FnName F = old) M = Some F \<Longrightarrow> F\<lparr>FnName := new\<rparr> \<in> set (setName old new M)"
  by (induction M) (auto split: if_splits)

lemma getOrInsertFunction_keeps: "F \<in> set M \<Longrightarrow> F \<in> set (getOrInsertFunction name args M)"
  by (simp add: getOrInsertFunction_def)

lemma old_main_kept:
  assumes main: "''main'' \<in> FnName ` set M" and mode: "DBLMode \<noteq> Baseline"
  shows "\<exists>F\<in>set M. FnName F = ''main'' \<and>
           F\<lparr>FnName := ''old_main''\<rparr> \<in> set (instrumentModule DBLMode M)"
proof -
  from find_main [OF main] obtain F where F: "find (\<lambda>F. FnName F = ''main'') M = Some F"
    by blast
  have FM: "F \<in> set M" "FnName F = ''main''"
    using F by (auto simp: find_Some_iff)
  define G where "G = F\<lparr>FnName := ''old_main''\<rparr>"
  have nm: "FnName G \<noteq> ''main''" "FnName G \<noteq> ''do_the_thing''"
    by (simp_all add: G_def)
  have "G \<in> set (setName ''main'' ''old_main'' M)"
    unfolding G_def using F by (rule setName_renames)
  then have "G \<in> set (getOrInsertFunction ''do_the_thing'' 0
                (getOrInsertFunction ''main'' (FnArgs F) (setName ''main'' ''old_main'' M)))"
    by (intro getOrInsertFunction_keeps)
  then have "G \<in> set (if DBLMode = Offsets
        then createRHStub ''do_the_thing'' (getOrInsertFunction ''do_the_thing'' 0
                (getOrInsertFunction ''main'' (FnArgs F) (setName ''main'' ''old_main'' M)))
        else getOrInsertFunction ''do_the_thing'' 0
                (getOrInsertFunction ''main'' (FnArgs F) (setName ''main'' ''old_main'' M)))"
    using nm(2) by (simp add: createRHStub_def add_block_other)
  then have "G \<in> set (instrumentModule DBLMode M)"
    using F mode nm(1) by (simp add: instrumentModule_def Let_def add_block_other)
  then show ?thesis using FM unfolding G_def by blast
qed

lemma Finish_config_unread:
  assumes "\<not> BundlingEnabled A" and "Mode A = DBL"
    and "TargetOffsetsPath A \<noteq> []" and "VictimAddressesPath A \<noteq> []"
    and "CompilerOutputPath A \<noteq> []"
    and "readConfig A = Inl e"
  shows "Finish A statics = ([], Some e)"
  using assms by (simp add: Finish_def)

lemma Finish_round2_entered:
  assumes "\<not> BundlingEnabled A" and "Mode A = DBL"
    and "TargetOffsetsPath A \<noteq> []" and "VictimAddressesPath A \<noteq> []"
    and "CompilerOutputPath A \<noteq> []"
    and "\<not> HostAborts A (Host_layout 1)" and "\<not> HostAborts A (Host_fixups 1)"
    and "\<not> HostAborts A (Host_writeObject 1)"
    and "readConfig A = Inr A1"
    and "list_all (\<lambda>Pair. snd Pair = [])
           (TargetsToFindForSection (writeSectionData (FragList (TextSec A)) 0 A1))"
  shows "\<exists>more r. Finish A statics =
           (Object (section_contents (TextSec A)) # Writer_reset # more, r)"
  using assms
  by (auto simp: Finish_def Let_def readConfig_keeps split: sum.splits prod.splits)

lemma Finish_DBL_stages:
  assumes mode: "Mode A = DBL" and run: "Finish A statics = (written, None)"
  shows "\<exists>A1 A2 Bundles S1 R statics' S2 rows.
           readConfig A = Inr A1 \<and>
           A2 = writeSectionData (FragList (TextSec A)) 0 A1 \<and>
           list_all (\<lambda>Pair. snd Pair = []) (TargetsToFindForSection A2) \<and>
           form_bundles (TextSec A) (FragTargetSpec A2) = Inr Bundles \<and>
           map BundleBegin Bundles =
             filter (\<lambda>f. Frags (TextSec A) f \<noteq> AlignFragment \<and> FragTargetSpec A2 f \<noteq> None)
               (FragList (TextSec A)) \<and>
           Bundles \<noteq> [] \<and> [BundleBegin (hd Bundles)] = take 1 (FragList (TextSec A)) \<and>
           insert_bridge_jumps Bundles (TextSec A) = Inr S1 \<and>
           (1 < length Bundles \<longrightarrow>
              (\<exists>e L. find_EndFrag (TextSec A) (Bundles ! 0) = Inr e \<and>
                 is_DBLFragment (Frags S1 e) \<and> Jmps (Frags S1 e) \<noteq> [] \<and>
                 last (Jmps (Frags S1 e)) = L \<and>
                 (L, BundleBegin (Bundles ! 1), 0) \<in> set (Symbols S1))) \<and>
           solveFF (asm_PageSize A) (asm_VictimInfos A1) (asm_getBundleSize A) Bundles []
             statics = Inr (R, statics') \<and>
           ascending R \<and>
           rewrite_section (asm_getBundleSize A) Bundles R S1 = Inr S2 \<and>
           length (FragList S2) = length (FragList (TextSec A)) + length R \<and>
           (\<forall>i<length R.
              NextFrag S1 + i \<in> set (FragList S2) \<and>
              Frags S2 (NextFrag S1 + i) =
                FillFragment 0xcc 1 (expected_fills (asm_getBundleSize A) Bundles 0 R ! i)) \<and>
           output_rows (asm_VictimInfos A1) R = (rows, None) \<and>
           written = [Object (section_contents (TextSec A)), Writer_reset, Files_opened] @
                     map Row rows @ [Files_closed, Object (section_contents S2)]"
proof -
  from Finish_DBL_run [OF assms] obtain A1 A2 Bundles S1 R statics' S2 rows where
    cfg: "readConfig A = Inr A1"
    and A2: "A2 = writeSectionData (FragList (TextSec A)) 0 A1"
    and left: "list_all (\<lambda>Pair. snd Pair = []) (TargetsToFindForSection A2)"
    and fb: "form_bundles (TextSec A) (FragTargetSpec A2) = Inr Bundles"
    and ne: "Bundles \<noteq> []"
    and first: "[BundleBegin (hd Bundles)] = take 1 (FragList (TextSec A))"
    and jumps: "insert_bridge_jumps Bundles (TextSec A) = Inr S1"
    and solve: "solveFF (asm_PageSize A) (asm_VictimInfos A1) (asm_getBundleSize A) Bundles []
             statics = Inr (R, statics')"
    and rw: "rewrite_section (asm_getBundleSize A) Bundles R S1 = Inr S2"
    and rows: "output_rows (asm_VictimInfos A1) R = (rows, None)"
    and w: "written = [Object (section_contents (TextSec A)), Writer_reset, Files_opened] @
                     map Row rows @ [Files_closed, Object (section_contents S2)]"
    by blast
  note begins = form_bundles_begins [OF fb]
  have jump: "\<exists>e L. find_EndFrag (TextSec A) (Bundles ! 0) = Inr e \<and>
                 is_DBLFragment (Frags S1 e) \<and> Jmps (Frags S1 e) \<noteq> [] \<and>
                 last (Jmps (Frags S1 e)) = L \<and>
                 (L, BundleBegin (Bundles ! 1), 0) \<in> set (Symbols S1)"
    if "1 < length Bundles"
  proof -
    from that obtain B0 B1 rest where B: "Bundles = B0 # B1 # rest"
      by (cases Bundles; cases "tl Bundles") auto
    show ?thesis
      using first_bundle_jump [OF jumps [unfolded B]] by (simp add: B)
  qed
  have asc: "ascending R"
    using solveFF_results [OF solve] by blast
  have shape: "FragList S1 = FragList (TextSec A)"
  proof -
    from jumps obtain PL' where "bridge_loop (rev Bundles) (None, TextSec A) = Inr (PL', S1)"
      by (auto simp: insert_bridge_jumps_def split: sum.splits)
    from bridge_loop_shape [OF this] show ?thesis by (simp add: same_shape_def)
  qed
  note fills = rewrite_section_fills [OF rw, unfolded shape]
  show ?thesis
    using cfg A2 left fb begins ne first jumps jump solve asc rw fills rows w by blast
qed

text \<open>
  C9, as claimed: in offsets mode the loader function is created as a stub, in baseline
  mode the assembler does the normal single-round layout, in dbl mode the configuration is
  read. The pass touches a module only through its function \<open>main\<close>: a module without
  \<open>main\<close> gets no \<open>do_the_thing\<close> in offsets mode. \<open>Finish\<close> asserts in every mode that
  bundling is disabled: with bundling enabled it ends on that assertion in baseline mode,
  before any layout. And in dbl mode it asserts that the three paths are given before it
  reads anything.
\<close>

theorem modes_need_main_and_no_bundling:
  "instrumentModule Offsets
     [\<lparr>FnName = ''fn1'', FnArgs = 0, BasicBlocks = [[ReturnInst None]]\<rparr>] =
     [\<lparr>FnName = ''fn1'', FnArgs = 0, BasicBlocks = [[ReturnInst None]]\<rparr>] \<and>
   Finish (dbl_assembler\<lparr>Mode := Baseline, BundlingEnabled := True\<rparr>) initial_statics =
     ([], Some Assert_bundling_disabled) \<and>
   Finish (dbl_assembler\<lparr>CompilerOutputPath := []\<rparr>) initial_statics =
     ([], Some Assert_paths_given)"
  by (simp add: instrumentModule_def Finish_def dbl_assembler_def)

text \<open>
  C9, amended. The module pass: in baseline mode it returns the module as it is. In the
  other two modes, on a module that defines \<open>main\<close> and has no function called
  \<open>old_main\<close> or \<open>do_the_thing\<close> (names distinct), the old \<open>main\<close> is kept under the name
  \<open>old_main\<close>, the new \<open>main\<close> is one block that calls \<open>do_the_thing\<close>, then \<open>old_main\<close> with
  the arguments of \<open>main\<close>, and returns \<open>0\<close>; in offsets mode \<open>do_the_thing\<close> is a stub whose
  body is one block with only a return, in dbl mode it is a declaration without a body.
  A module without \<open>main\<close> is unchanged in every mode.

  The assembler, with bundling disabled and the host's own steps of round 1 completing:
  in baseline and in offsets mode \<open>Finish\<close> writes the object once and does nothing else,
  whatever is in the configuration files. In dbl mode with the three paths given: a
  configuration that cannot be read ends the run before anything is written; otherwise
  round 1 writes the object; if a section then still has a target to find, the run ends
  on the assertion; otherwise the writer is reset and round 2 is entered. A run in dbl
  mode that does not end early has read the configuration, matched every target in round
  1, formed the bundles (one for each fragment with a \<open>TargetSpec\<close>, in section order, the
  first at the head of the section), inserted the bridge jumps (the first bundle ends
  with a jump to the label at the head of the second), solved into a result map with
  ascending keys, rewritten the section with one \<open>0xcc\<close> fill per result, written the
  rows of the result files, and written the object again, from the rewritten section.
\<close>

theorem mode_behaviour:
  "instrumentModule Baseline M = M \<and>
   (''main'' \<in> FnName ` set M \<longrightarrow> distinct (map FnName M) \<longrightarrow>
    ''old_main'' \<notin> FnName ` set M \<longrightarrow> ''do_the_thing'' \<notin> FnName ` set M \<longrightarrow>
      \<lparr>FnName = ''do_the_thing'', FnArgs = 0, BasicBlocks = [[ReturnInst None]]\<rparr>
        \<in> set (instrumentModule Offsets M) \<and>
      \<lparr>FnName = ''do_the_thing'', FnArgs = 0, BasicBlocks = []\<rparr>
        \<in> set (instrumentModule DBL M) \<and>
      (DBLMode \<noteq> Baseline \<longrightarrow>
        (\<exists>F\<in>set M. FnName F = ''main'' \<and>
            F\<lparr>FnName := ''old_main''\<rparr> \<in> set (instrumentModule DBLMode M)) \<and>
        (\<exists>args. \<lparr>FnName = ''main'', FnArgs = length args,
                   BasicBlocks = [[CallInst ''do_the_thing'' [], CallInst ''old_main'' args,
                                   ReturnInst (Some 0)]]\<rparr>
            \<in> set (instrumentModule DBLMode M)))) \<and>
   (''main'' \<notin> FnName ` set M \<longrightarrow> instrumentModule DBLMode M = M) \<and>
   (\<not> BundlingEnabled A \<longrightarrow> \<not> HostAborts A (Host_layout 1) \<longrightarrow>
    \<not> HostAborts A (Host_fixups 1) \<longrightarrow> \<not> HostAborts A (Host_writeObject 1) \<longrightarrow>
      (Mode A = Baseline \<or> Mode A = Offsets \<longrightarrow>
         Finish A statics = ([Object (section_contents (TextSec A))], None)) \<and>
      (Mode A = DBL \<longrightarrow> TargetOffsetsPath A \<noteq> [] \<longrightarrow> VictimAddressesPath A \<noteq> [] \<longrightarrow>
       CompilerOutputPath A \<noteq> [] \<longrightarrow>
         (readConfig A = Inl e \<longrightarrow> Finish A statics = ([], Some e)) \<and>
         (readConfig A = Inr A1 \<longrightarrow>
            (if list_all (\<lambda>Pair. snd Pair = [])
                  (TargetsToFindForSection (writeSectionData (FragList (TextSec A)) 0 A1))
             then \<exists>more r. Finish A statics =
                    (Object (section_contents (TextSec A)) # Writer_reset # more, r)
             else Finish A statics =
                    ([Object (section_contents (TextSec A))], Some Assert_targets_found))))) \<and>
   (Mode A = DBL \<longrightarrow> Finish A statics = (written, None) \<longrightarrow>
      (\<exists>A1 A2 Bundles S1 R statics' S2 rows.
         readConfig A = Inr A1 \<and>
         A2 = writeSectionData (FragList (TextSec A)) 0 A1 \<and>
         list_all (\<lambda>Pair. snd Pair = []) (TargetsToFindForSection A2) \<and>
         form_bundles (TextSec A) (FragTargetSpec A2) = Inr Bundles \<and>
         map BundleBegin Bundles =
           filter (\<lambda>f. Frags (TextSec A) f \<noteq> AlignFragment \<and> FragTargetSpec A2 f \<noteq> None)
             (FragList (TextSec A)) \<and>
         Bundles \<noteq> [] \<and> [BundleBegin (hd Bundles)] = take 1 (FragList (TextSec A)) \<and>
         insert_bridge_jumps Bundles (TextSec A) = Inr S1 \<and>
         (1 < length Bundles \<longrightarrow>
            (\<exists>e L. find_EndFrag (TextSec A) (Bundles ! 0) = Inr e \<and>
               is_DBLFragment (Frags S1 e) \<and> Jmps (Frags S1 e) \<noteq> [] \<and>
               last (Jmps (Frags S1 e)) = L \<and>
               (L, BundleBegin (Bundles ! 1), 0) \<in> set (Symbols S1))) \<and>
         solveFF (asm_PageSize A) (asm_VictimInfos A1) (asm_getBundleSize A) Bundles []
           statics = Inr (R, statics') \<and>
         ascending R \<and>
         rewrite_section (asm_getBundleSize A) Bundles R S1 = Inr S2 \<and>
         length (FragList S2) = length (FragList (TextSec A)) + length R \<and>
         (\<forall>i<length R.
            NextFrag S1 + i \<in> set (FragList S2) \<and>
            Frags S2 (NextFrag S1 + i) =
              FillFragment 0xcc 1 (expected_fills (asm_getBundleSize A) Bundles 0 R ! i)) \<and>
         output_rows (asm_VictimInfos A1) R = (rows, None) \<and>
         written = [Object (section_contents (TextSec A)), Writer_reset, Files_opened] @
                   map Row rows @ [Files_closed, Object (section_contents S2)]))"
proof -
  have a: "instrumentModule Baseline M = M"
    by (simp add: instrumentModule_def)
  have single: "Finish A statics = ([Object (section_contents (TextSec A))], None)"
    if "\<not> BundlingEnabled A" "\<not> HostAborts A (Host_layout 1)" "\<not> HostAborts A (Host_fixups 1)"
      "\<not> HostAborts A (Host_writeObject 1)" "Mode A = Baseline \<or> Mode A = Offsets"
    using that by (intro Finish_single_round) auto
  have two: "if list_all (\<lambda>Pair. snd Pair = [])
                  (TargetsToFindForSection (writeSectionData (FragList (TextSec A)) 0 A1))
             then \<exists>more r. Finish A statics =
                    (Object (section_contents (TextSec A)) # Writer_reset # more, r)
             else Finish A statics =
                    ([Object (section_contents (TextSec A))], Some Assert_targets_found)"
    if "\<not> BundlingEnabled A" "\<not> HostAborts A (Host_layout 1)" "\<not> HostAborts A (Host_fixups 1)"
      "\<not> HostAborts A (Host_writeObject 1)" "Mode A = DBL" "TargetOffsetsPath A \<noteq> []"
      "VictimAddressesPath A \<noteq> []" "CompilerOutputPath A \<noteq> []" "readConfig A = Inr A1"
  proof (cases "list_all (\<lambda>Pair. snd Pair = [])
                  (TargetsToFindForSection (writeSectionData (FragList (TextSec A)) 0 A1))")
    case True
    from Finish_round2_entered [OF that(1,5,6,7,8,2,3,4,9) True, of statics] True
    show ?thesis by simp
  next
    case False
    from Finish_targets_left [OF that(1,5,6,7,8,2,3,4,9) False, of statics] False
    show ?thesis by simp
  qed
  have pass: "\<lparr>FnName = ''do_the_thing'', FnArgs = 0, BasicBlocks = [[ReturnInst None]]\<rparr>
        \<in> set (instrumentModule Offsets M) \<and>
      \<lparr>FnName = ''do_the_thing'', FnArgs = 0, BasicBlocks = []\<rparr>
        \<in> set (instrumentModule DBL M) \<and>
      (DBLMode \<noteq> Baseline \<longrightarrow>
        (\<exists>F\<in>set M. FnName F = ''main'' \<and>
            F\<lparr>FnName := ''old_main''\<rparr> \<in> set (instrumentModule DBLMode M)) \<and>
        (\<exists>args. \<lparr>FnName = ''main'', FnArgs = length args,
                   BasicBlocks = [[CallInst ''do_the_thing'' [], CallInst ''old_main'' args,
                                   ReturnInst (Some 0)]]\<rparr>
            \<in> set (instrumentModule DBLMode M)))"
    if "''main'' \<in> FnName ` set M" "distinct (map FnName M)" "''do_the_thing'' \<notin> FnName ` set M"
    using loader_stub_created [OF that(1,3)] new_main_created [OF that(1,2), of DBLMode]
      old_main_kept [OF that(1), of DBLMode]
    by blast
  have c2: "''main'' \<in> FnName ` set M \<longrightarrow> distinct (map FnName M) \<longrightarrow>
    ''old_main'' \<notin> FnName ` set M \<longrightarrow> ''do_the_thing'' \<notin> FnName ` set M \<longrightarrow>
      \<lparr>FnName = ''do_the_thing'', FnArgs = 0, BasicBlocks = [[ReturnInst None]]\<rparr>
        \<in> set (instrumentModule Offsets M) \<and>
      \<lparr>FnName = ''do_the_thing'', FnArgs = 0, BasicBlocks = []\<rparr>
        \<in> set (instrumentModule DBL M) \<and>
      (DBLMode \<noteq> Baseline \<longrightarrow>
        (\<exists>F\<in>set M. FnName F = ''main'' \<and>
            F\<lparr>FnName := ''old_main''\<rparr> \<in> set (instrumentModule DBLMode M)) \<and>
        (\<exists>args. \<lparr>FnName = ''main'', FnArgs = length args,
                   BasicBlocks = [[CallInst ''do_the_thing'' [], CallInst ''old_main'' args,
                                   ReturnInst (Some 0)]]\<rparr>
            \<in> set (instrumentModule DBLMode M)))"
    using pass by (intro impI)
  have c3: "''main'' \<notin> FnName ` set M \<longrightarrow> instrumentModule DBLMode M = M"
    using instrumentModule_no_main [of M DBLMode] by (intro impI)
  have c4: "\<not> BundlingEnabled A \<longrightarrow> \<not> HostAborts A (Host_layout 1) \<longrightarrow>
    \<not> HostAborts A (Host_fixups 1) \<longrightarrow> \<not> HostAborts A (Host_writeObject 1) \<longrightarrow>
      (Mode A = Baseline \<or> Mode A = Offsets \<longrightarrow>
         Finish A statics = ([Object (section_contents (TextSec A))], None)) \<and>
      (Mode A = DBL \<longrightarrow> TargetOffsetsPath A \<noteq> [] \<longrightarrow> VictimAddressesPath A \<noteq> [] \<longrightarrow>
       CompilerOutputPath A \<noteq> [] \<longrightarrow>
         (readConfig A = Inl e \<longrightarrow> Finish A statics = ([], Some e)) \<and>
         (readConfig A = Inr A1 \<longrightarrow>
            (if list_all (\<lambda>Pair. snd Pair = [])
                  (TargetsToFindForSection (writeSectionData (FragList (TextSec A)) 0 A1))
             then \<exists>more r. Finish A statics =
                    (Object (section_contents (TextSec A)) # Writer_reset # more, r)
             else Finish A statics =
                    ([Object (section_contents (TextSec A))], Some Assert_targets_found))))"
  proof (intro impI conjI)
    assume h: "\<not> BundlingEnabled A" "\<not> HostAborts A (Host_layout 1)"
      "\<not> HostAborts A (Host_fixups 1)" "\<not> HostAborts A (Host_writeObject 1)"
    {
      assume "Mode A = Baseline \<or> Mode A = Offsets"
      with h show "Finish A statics = ([Object (section_contents (TextSec A))], None)"
        by (rule single)
    }
    assume d: "Mode A = DBL" "TargetOffsetsPath A \<noteq> []" "VictimAddressesPath A \<noteq> []"
      "CompilerOutputPath A \<noteq> []"
    {
      assume "readConfig A = Inl e"
      with h(1) d show "Finish A statics = ([], Some e)"
        by (rule Finish_config_unread)
    }
    {
      assume "readConfig A = Inr A1"
      with h d show "if list_all (\<lambda>Pair. snd Pair = [])
                  (TargetsToFindForSection (writeSectionData (FragList (TextSec A)) 0 A1))
             then \<exists>more r. Finish A statics =
                    (Object (section_contents (TextSec A)) # Writer_reset # more, r)
             else Finish A statics =
                    ([Object (section_contents (TextSec A))], Some Assert_targets_found)"
        by (rule two)
    }
  qed
  note c5 = Finish_DBL_stages [of A statics written]
  show ?thesis
    apply (intro conjI)
        apply (rule a)
       apply (rule c2)
      apply (rule c3)
     apply (rule c4)
    apply (intro impI)
    apply (erule (1) c5)
    done
qed

lemma unreadable_Finish_run:
  "readConfig (dbl_assembler\<lparr>TargetOffsetsFile := None\<rparr>) = Inl Assert_config_parsed"
  by (simp add: readConfig_def)

theorem mode_behaviour_witness:
  "instrumentModule Baseline test_module = test_module \<and>
   \<lparr>FnName = ''do_the_thing'', FnArgs = 0, BasicBlocks = [[ReturnInst None]]\<rparr>
     \<in> set (instrumentModule Offsets test_module) \<and>
   \<lparr>FnName = ''do_the_thing'', FnArgs = 0, BasicBlocks = []\<rparr>
     \<in> set (instrumentModule DBL test_module) \<and>
   \<lparr>FnName = ''old_main'', FnArgs = 2, BasicBlocks = [[ReturnInst (Some 0)]]\<rparr>
     \<in> set (instrumentModule Offsets test_module) \<and>
   \<lparr>FnName = ''main'', FnArgs = 2,
     BasicBlocks = [[CallInst ''do_the_thing'' [], CallInst ''old_main'' [0, 1],
                     ReturnInst (Some 0)]]\<rparr>
     \<in> set (instrumentModule Offsets test_module) \<and>
   (\<exists>args. \<lparr>FnName = ''main'', FnArgs = length args,
              BasicBlocks = [[CallInst ''do_the_thing'' [], CallInst ''old_main'' args,
                              ReturnInst (Some 0)]]\<rparr>
       \<in> set (instrumentModule DBL test_module)) \<and>
   instrumentModule DBL [\<lparr>FnName = ''fn1'', FnArgs = 0, BasicBlocks = []\<rparr>] =
     [\<lparr>FnName = ''fn1'', FnArgs = 0, BasicBlocks = []\<rparr>] \<and>
   Finish (dbl_assembler\<lparr>Mode := Baseline\<rparr>) initial_statics =
     ([Object [DBLFragment 0x200 [], DBLFragment 0x10 []]], None) \<and>
   Finish (dbl_assembler\<lparr>Mode := Offsets, TargetOffsetsFile := None\<rparr>) initial_statics =
     ([Object [DBLFragment 0x200 [], DBLFragment 0x10 []]], None) \<and>
   Finish (dbl_assembler\<lparr>TargetOffsetsFile := None\<rparr>) initial_statics =
     ([], Some Assert_config_parsed) \<and>
   Finish (dbl_assembler\<lparr>TargetOffsetsFile :=
             Some [(''.dbl_text'', [Entry_fixed 0x300 3 True])]\<rparr>) initial_statics =
     ([Object [DBLFragment 0x200 [], DBLFragment 0x10 []]], Some Assert_targets_found) \<and>
   Finish dbl_assembler initial_statics =
     ([Object [DBLFragment 0x200 [], DBLFragment 0x10 []], Writer_reset, Files_opened,
       Row \<lparr>RowVictimPageOffset = 0x140, RowVictimAddr = 0x4140, RowBit = 3, RowSign = True,
            RowAggrs = [0x3000, 0x5000], RowAggrInit = 0xFF\<rparr>,
       Files_closed,
       Object [FillFragment 0xcc 1 0, DBLFragment 0x10 [], FillFragment 0xcc 1 0x10,
               DBLFragment 0x205 [TempSymbol 0]]], None) \<and>
   (\<exists>(A2 :: assembler) Bundles S1 R S2.
      map BundleBegin Bundles =
        filter (\<lambda>f. Frags (TextSec dbl_assembler) f \<noteq> AlignFragment \<and>
                     FragTargetSpec A2 f \<noteq> None) (FragList (TextSec dbl_assembler)) \<and>
      insert_bridge_jumps Bundles (TextSec dbl_assembler) = Inr S1 \<and>
      ascending R \<and>
      rewrite_section (asm_getBundleSize dbl_assembler) Bundles R S1 = Inr S2 \<and>
      length (FragList S2) = length (FragList (TextSec dbl_assembler)) + length R \<and>
      [FillFragment 0xcc 1 0, DBLFragment 0x10 [], FillFragment 0xcc 1 0x10,
       DBLFragment 0x205 [TempSymbol 0]] = section_contents S2)"
proof -
  note t = mode_behaviour [where M = test_module and DBLMode = Offsets]
  note t' = mode_behaviour [where M = test_module and DBLMode = DBL]
  have names: "''main'' \<in> FnName ` set test_module" "distinct (map FnName test_module)"
    "''old_main'' \<notin> FnName ` set test_module" "''do_the_thing'' \<notin> FnName ` set test_module"
    by (simp_all add: test_module_def)
  have a: "instrumentModule Baseline test_module = test_module"
    using t by blast
  note p = t [THEN conjunct2, THEN conjunct1, rule_format, OF names]
  note p' = t' [THEN conjunct2, THEN conjunct1, rule_format, OF names]
  have b: "\<lparr>FnName = ''do_the_thing'', FnArgs = 0, BasicBlocks = [[ReturnInst None]]\<rparr>
             \<in> set (instrumentModule Offsets test_module)"
    "\<lparr>FnName = ''do_the_thing'', FnArgs = 0, BasicBlocks = []\<rparr>
             \<in> set (instrumentModule DBL test_module)"
    using p by blast+
  have c: "\<exists>args. \<lparr>FnName = ''main'', FnArgs = length args,
              BasicBlocks = [[CallInst ''do_the_thing'' [], CallInst ''old_main'' args,
                              ReturnInst (Some 0)]]\<rparr>
       \<in> set (instrumentModule DBL test_module)"
    using p' by blast
  have d: "\<lparr>FnName = ''old_main'', FnArgs = 2, BasicBlocks = [[ReturnInst (Some 0)]]\<rparr>
             \<in> set (instrumentModule Offsets test_module)"
    "\<lparr>FnName = ''main'', FnArgs = 2,
       BasicBlocks = [[CallInst ''do_the_thing'' [], CallInst ''old_main'' [0, 1],
                       ReturnInst (Some 0)]]\<rparr>
       \<in> set (instrumentModule Offsets test_module)"
    by (simp_all add: instrument_test_module_Offsets)
  have e: "instrumentModule DBL [\<lparr>FnName = ''fn1'', FnArgs = 0, BasicBlocks = []\<rparr>] =
             [\<lparr>FnName = ''fn1'', FnArgs = 0, BasicBlocks = []\<rparr>]"
    using mode_behaviour [where M = "[\<lparr>FnName = ''fn1'', FnArgs = 0, BasicBlocks = []\<rparr>]"
        and DBLMode = DBL, THEN conjunct2, THEN conjunct2, THEN conjunct1]
    by simp
  have first: "section_contents (TextSec dbl_assembler) = [DBLFragment 0x200 [], DBLFragment 0x10 []]"
    by (simp add: section_contents_def dbl_assembler_def)
  have f: "Finish (dbl_assembler\<lparr>Mode := Baseline\<rparr>) initial_statics =
     ([Object [DBLFragment 0x200 [], DBLFragment 0x10 []]], None)"
    using mode_behaviour [where A = "dbl_assembler\<lparr>Mode := Baseline\<rparr>"
        and statics = initial_statics,
        THEN conjunct2, THEN conjunct2, THEN conjunct2, THEN conjunct1] first
    by (simp add: dbl_assembler_def)
  have g: "Finish (dbl_assembler\<lparr>Mode := Offsets, TargetOffsetsFile := None\<rparr>) initial_statics =
     ([Object [DBLFragment 0x200 [], DBLFragment 0x10 []]], None)"
    using mode_behaviour [where A = "dbl_assembler\<lparr>Mode := Offsets, TargetOffsetsFile := None\<rparr>"
        and statics = initial_statics,
        THEN conjunct2, THEN conjunct2, THEN conjunct2, THEN conjunct1] first
    by (simp add: dbl_assembler_def)
  have opts: "\<not> BundlingEnabled (dbl_assembler\<lparr>TargetOffsetsFile := X\<rparr>)"
    "\<not> HostAborts (dbl_assembler\<lparr>TargetOffsetsFile := X\<rparr>) (Host_layout 1)"
    "\<not> HostAborts (dbl_assembler\<lparr>TargetOffsetsFile := X\<rparr>) (Host_fixups 1)"
    "\<not> HostAborts (dbl_assembler\<lparr>TargetOffsetsFile := X\<rparr>) (Host_writeObject 1)"
    "Mode (dbl_assembler\<lparr>TargetOffsetsFile := X\<rparr>) = DBL"
    "TargetOffsetsPath (dbl_assembler\<lparr>TargetOffsetsFile := X\<rparr>) \<noteq> []"
    "VictimAddressesPath (dbl_assembler\<lparr>TargetOffsetsFile := X\<rparr>) \<noteq> []"
    "CompilerOutputPath (dbl_assembler\<lparr>TargetOffsetsFile := X\<rparr>) \<noteq> []" for X
    by (simp_all add: dbl_assembler_def)
  have h: "Finish (dbl_assembler\<lparr>TargetOffsetsFile := None\<rparr>) initial_statics =
     ([], Some Assert_config_parsed)"
    using mode_behaviour [where A = "dbl_assembler\<lparr>TargetOffsetsFile := None\<rparr>"
        and statics = initial_statics and e = Assert_config_parsed,
        THEN conjunct2, THEN conjunct2, THEN conjunct2, THEN conjunct1, rule_format,
        OF opts(1-4), THEN conjunct2, rule_format, OF opts(5-8), THEN conjunct1, rule_format,
        OF unreadable_Finish_run] .
  have mode: "Mode dbl_assembler = DBL" by (simp add: dbl_assembler_def)
  define trace where "trace =
      [Object [DBLFragment 0x200 [], DBLFragment 0x10 []], Writer_reset, Files_opened,
       Row \<lparr>RowVictimPageOffset = 0x140, RowVictimAddr = 0x4140, RowBit = 3, RowSign = True,
            RowAggrs = [0x3000, 0x5000], RowAggrInit = 0xFF\<rparr>,
       Files_closed,
       Object [FillFragment 0xcc 1 0, DBLFragment 0x10 [], FillFragment 0xcc 1 0x10,
               DBLFragment 0x205 [TempSymbol 0]]]"
  have run: "Finish dbl_assembler initial_statics = (trace, None)"
    unfolding trace_def by (rule dbl_Finish_run)
  note stages = mode_behaviour [where A = dbl_assembler and statics = initial_statics
      and written = trace,
      THEN conjunct2, THEN conjunct2, THEN conjunct2, THEN conjunct2, rule_format,
      OF mode run]
  then obtain A1 A2 Bundles S1 R statics' S2 rows where all:
    "readConfig dbl_assembler = Inr A1 \<and>
     A2 = writeSectionData (FragList (TextSec dbl_assembler)) 0 A1 \<and>
     list_all (\<lambda>Pair. snd Pair = []) (TargetsToFindForSection A2) \<and>
     form_bundles (TextSec dbl_assembler) (FragTargetSpec A2) = Inr Bundles \<and>
     map BundleBegin Bundles =
       filter (\<lambda>f. Frags (TextSec dbl_assembler) f \<noteq> AlignFragment \<and>
                    FragTargetSpec A2 f \<noteq> None) (FragList (TextSec dbl_assembler)) \<and>
     Bundles \<noteq> [] \<and> [BundleBegin (hd Bundles)] = take 1 (FragList (TextSec dbl_assembler)) \<and>
     insert_bridge_jumps Bundles (TextSec dbl_assembler) = Inr S1 \<and>
     (1 < length Bundles \<longrightarrow>
        (\<exists>e L. find_EndFrag (TextSec dbl_assembler) (Bundles ! 0) = Inr e \<and>
           is_DBLFragment (Frags S1 e) \<and> Jmps (Frags S1 e) \<noteq> [] \<and>
           last (Jmps (Frags S1 e)) = L \<and>
           (L, BundleBegin (Bundles ! 1), 0) \<in> set (Symbols S1))) \<and>
     solveFF (asm_PageSize dbl_assembler) (asm_VictimInfos A1) (asm_getBundleSize dbl_assembler)
       Bundles [] initial_statics = Inr (R, statics') \<and>
     ascending R \<and>
     rewrite_section (asm_getBundleSize dbl_assembler) Bundles R S1 = Inr S2 \<and>
     length (FragList S2) = length (FragList (TextSec dbl_assembler)) + length R \<and>
     (\<forall>i<length R.
        NextFrag S1 + i \<in> set (FragList S2) \<and>
        Frags S2 (NextFrag S1 + i) =
          FillFragment 0xcc 1 (expected_fills (asm_getBundleSize dbl_assembler) Bundles 0 R ! i)) \<and>
     output_rows (asm_VictimInfos A1) R = (rows, None) \<and>
     trace = [Object (section_contents (TextSec dbl_assembler)), Writer_reset, Files_opened] @
               map Row rows @ [Files_closed, Object (section_contents S2)]"
    by (elim exE)
  have st: "map BundleBegin Bundles =
        filter (\<lambda>f. Frags (TextSec dbl_assembler) f \<noteq> AlignFragment \<and>
                     FragTargetSpec A2 f \<noteq> None) (FragList (TextSec dbl_assembler))"
      "insert_bridge_jumps Bundles (TextSec dbl_assembler) = Inr S1"
      "ascending R"
      "rewrite_section (asm_getBundleSize dbl_assembler) Bundles R S1 = Inr S2"
      "length (FragList S2) = length (FragList (TextSec dbl_assembler)) + length R"
    and w: "trace =
        [Object (section_contents (TextSec dbl_assembler)), Writer_reset, Files_opened] @
                   map Row rows @ [Files_closed, Object (section_contents S2)]"
    using all by blast+
  have "last trace = Object (section_contents S2)"
    unfolding w by simp
  then have fin: "[FillFragment 0xcc 1 0, DBLFragment 0x10 [], FillFragment 0xcc 1 0x10,
       DBLFragment 0x205 [TempSymbol 0]] = section_contents S2"
    by (simp add: trace_def)
  have i: "\<exists>(A2 :: assembler) Bundles S1 R S2.
      map BundleBegin Bundles =
        filter (\<lambda>f. Frags (TextSec dbl_assembler) f \<noteq> AlignFragment \<and>
                     FragTargetSpec A2 f \<noteq> None) (FragList (TextSec dbl_assembler)) \<and>
      insert_bridge_jumps Bundles (TextSec dbl_assembler) = Inr S1 \<and>
      ascending R \<and>
      rewrite_section (asm_getBundleSize dbl_assembler) Bundles R S1 = Inr S2 \<and>
      length (FragList S2) = length (FragList (TextSec dbl_assembler)) + length R \<and>
      [FillFragment 0xcc 1 0, DBLFragment 0x10 [], FillFragment 0xcc 1 0x10,
       DBLFragment 0x205 [TempSymbol 0]] = section_contents S2"
    apply (rule exI [where x = A2])
    apply (rule exI [where x = Bundles])
    apply (rule exI [where x = S1])
    apply (rule exI [where x = R])
    apply (rule exI [where x = S2])
    apply (intro conjI st fin)
    done
  show ?thesis
    using a b c d e f g h i unmatched_Finish_run dbl_Finish_run by (intro conjI)
qed

end
